theory Spec2Isabelle
  imports Main "HOL-Library.Multiset" "HOL-Library.Product_Lexorder" "HOL-Library.Monad_Syntax"
begin

section \<open>Entity model\<close>

text \<open>
  The interfaces \<^verbatim>\<open>Subtask\<close> and \<^verbatim>\<open>Task\<close> of \<^verbatim>\<open>lib/types.ts\<close>. An optional
  property \<^verbatim>\<open>f?: T\<close> is a field of type \<open>T option\<close>, where \<open>None\<close> stands for
  \<^verbatim>\<open>undefined\<close> (a missing property reads as \<^verbatim>\<open>undefined\<close>). The property \<^verbatim>\<open>id\<close> is
  called \<open>task_id\<close> (\<open>sub_id\<close> for a subtask) and \<^verbatim>\<open>type\<close> is called \<open>task_type\<close>.
  The objects built by the add-task dialog also carry the form values
  \<^verbatim>\<open>startTime\<close> and \<^verbatim>\<open>imageUrl\<close>, which are spread into the task, so the record has
  them as well. JavaScript numbers that count something are integers here.
\<close>

record Subtask =
  sub_id :: string
  sub_title :: string
  sub_completed :: bool

datatype TaskType = Daily | Scheduled

datatype IntervalUnit = Minutes | Hours | Days

record Task =
  task_id :: string
  title :: string
  description :: "string option"
  task_type :: TaskType
  dueDate :: "string option"
  completed :: bool
  completedAt :: "string option"
  subtasks :: "Subtask list"
  isRecurring :: "bool option"
  recurringInterval :: "int option"
  recurringIntervalUnit :: "IntervalUnit option"
  repetitions :: "int option"
  startTime :: "string option"
  imageUrl :: "string option"

text \<open>
  \<^verbatim>\<open>Partial<Task>\<close>, the argument of \<^verbatim>\<open>updateTask\<close>: every property of the interface
  may be present or not. \<open>None\<close> is a property that is not there; for an optional
  property, \<open>Some None\<close> is a property that is there with the value \<^verbatim>\<open>undefined\<close>
  (as in \<^verbatim>\<open>completedAt: undefined\<close>), which overwrites on spreading. A property
  that the interface requires carries a value when it is present, as in every
  call of the page.
\<close>

record TaskUpdates =
  u_id :: "string option"
  u_title :: "string option"
  u_description :: "string option option"
  u_type :: "TaskType option"
  u_dueDate :: "string option option"
  u_completed :: "bool option"
  u_completedAt :: "string option option"
  u_subtasks :: "Subtask list option"
  u_isRecurring :: "bool option option"
  u_recurringInterval :: "int option option"
  u_recurringIntervalUnit :: "IntervalUnit option option"
  u_repetitions :: "int option option"

definition noUpdates :: TaskUpdates where
  "noUpdates = \<lparr> u_id = None, u_title = None, u_description = None, u_type = None,
     u_dueDate = None, u_completed = None, u_completedAt = None, u_subtasks = None,
     u_isRecurring = None, u_recurringInterval = None, u_recurringIntervalUnit = None,
     u_repetitions = None \<rparr>"


section \<open>Lifecycle engine: \<^verbatim>\<open>updateTask\<close> and \<^verbatim>\<open>deleteTask\<close>\<close>

text \<open>One property of the spread \<^verbatim>\<open>{ ...originalTask, ...updates }\<close>.\<close>

definition spread :: "'a \<Rightarrow> 'a option \<Rightarrow> 'a" where
  "spread old new = (case new of None \<Rightarrow> old | Some v \<Rightarrow> v)"

definition mergeTask :: "Task \<Rightarrow> TaskUpdates \<Rightarrow> Task" where
  "mergeTask t u = t\<lparr>
     task_id := spread (task_id t) (u_id u),
     title := spread (title t) (u_title u),
     description := spread (description t) (u_description u),
     task_type := spread (task_type t) (u_type u),
     dueDate := spread (dueDate t) (u_dueDate u),
     completed := spread (completed t) (u_completed u),
     completedAt := spread (completedAt t) (u_completedAt u),
     subtasks := spread (subtasks t) (u_subtasks u),
     isRecurring := spread (isRecurring t) (u_isRecurring u),
     recurringInterval := spread (recurringInterval t) (u_recurringInterval u),
     recurringIntervalUnit := spread (recurringIntervalUnit t) (u_recurringIntervalUnit u),
     repetitions := spread (repetitions t) (u_repetitions u) \<rparr>"

text \<open>\<^verbatim>\<open>Array.prototype.findIndex\<close>; \<open>None\<close> is the result \<^verbatim>\<open>-1\<close>.\<close>

fun findIndex :: "('a \<Rightarrow> bool) \<Rightarrow> 'a list \<Rightarrow> nat option" where
  "findIndex p [] = None"
| "findIndex p (x # xs) = (if p x then Some 0 else map_option Suc (findIndex p xs))"

text \<open>The nullish coalescing \<^verbatim>\<open>x ?? d\<close>.\<close>

definition nullish :: "'a option \<Rightarrow> 'a \<Rightarrow> 'a" where
  "nullish x d = (case x of None \<Rightarrow> d | Some v \<Rightarrow> v)"

text \<open>
  The object literal \<^verbatim>\<open>newTask\<close> of \<^verbatim>\<open>updateTask\<close>: the successor of a recurring
  task. \<open>newId\<close> is the value that the call \<^verbatim>\<open>uuidv4()\<close> returns.
\<close>

definition resetSubtask :: "Subtask \<Rightarrow> Subtask" where
  "resetSubtask sub = sub\<lparr> sub_completed := False \<rparr>"

definition successorTask :: "string \<Rightarrow> int \<Rightarrow> Task \<Rightarrow> Task" where
  "successorTask newId newRepetitions originalTask = originalTask\<lparr>
     task_id := newId,
     completed := False,
     completedAt := None,
     repetitions := Some newRepetitions,
     subtasks := map resetSubtask (subtasks originalTask) \<rparr>"

text \<open>
  The state updater that \<^verbatim>\<open>updateTask\<close> hands to \<^verbatim>\<open>setTasks\<close>, as a function from
  the previous collection to the next one.
\<close>

definition updateTask :: "string \<Rightarrow> string \<Rightarrow> TaskUpdates \<Rightarrow> Task list \<Rightarrow> Task list" where
  "updateTask newId i updates prevTasks =
     (case findIndex (\<lambda>task. task_id task = i) prevTasks of
        None \<Rightarrow> prevTasks
      | Some taskIndex \<Rightarrow>
          (let originalTask = prevTasks ! taskIndex;
               updatedTask = mergeTask originalTask updates;
               newTasks = prevTasks[taskIndex := updatedTask]
           in if u_completed updates = Some True
                 \<and> isRecurring originalTask = Some True
                 \<and> nullish (repetitions originalTask) 0 > 0
              then (let newRepetitions = nullish (repetitions originalTask) 1 - 1
                    in if newRepetitions > 0
                       then newTasks @ [successorTask newId newRepetitions originalTask]
                       else newTasks)
              else newTasks))"

definition deleteTask :: "string \<Rightarrow> Task list \<Rightarrow> Task list" where
  "deleteTask i prevTasks = filter (\<lambda>task. task_id task \<noteq> i) prevTasks"


section \<open>Completion handlers of \<^verbatim>\<open>TaskItem\<close>\<close>




section \<open>Lifecycle engine: creation\<close>

text \<open>
  \<^verbatim>\<open>Omit<Task, 'id' | 'completed' | 'completedAt'>\<close>, the argument of \<^verbatim>\<open>addTask\<close>.
\<close>

record TaskDraft =
  d_title :: string
  d_description :: "string option"
  d_type :: TaskType
  d_dueDate :: "string option"
  d_subtasks :: "Subtask list"
  d_isRecurring :: "bool option"
  d_recurringInterval :: "int option"
  d_recurringIntervalUnit :: "IntervalUnit option"
  d_repetitions :: "int option"
  d_startTime :: "string option"
  d_imageUrl :: "string option"

definition addTask :: "string \<Rightarrow> TaskDraft \<Rightarrow> Task list \<Rightarrow> Task list" where
  "addTask newId task prevTasks = prevTasks @
     [\<lparr> task_id = newId,
        title = d_title task,
        description = d_description task,
        task_type = d_type task,
        dueDate = d_dueDate task,
        completed = False,
        completedAt = None,
        subtasks = d_subtasks task,
        isRecurring = d_isRecurring task,
        recurringInterval = d_recurringInterval task,
        recurringIntervalUnit = d_recurringIntervalUnit task,
        repetitions = d_repetitions task,
        startTime = d_startTime task,
        imageUrl = d_imageUrl task \<rparr>]"

text \<open>
  The identifiers come from the library function \<^verbatim>\<open>uuidv4\<close>. Its results are a
  parameter: \<open>g k\<close> is what the \<open>k\<close>-th call returns, and the number of calls made
  so far is threaded through the functions that call it.

  \<open>finalSubtasks\<close> is the \<^verbatim>\<open>subtasks.map(...)\<close> of \<^verbatim>\<open>onSubmit\<close>, one call of
  \<^verbatim>\<open>uuidv4\<close> for each title, from left to right. \<open>onSubmit\<close> is the part of the
  handler after the form has passed validation and \<^verbatim>\<open>finalDueDate\<close> has been
  computed: it builds the subtasks and calls \<open>addTask\<close>, which draws the id of the
  task.
\<close>

definition finalSubtasks :: "(nat \<Rightarrow> string) \<Rightarrow> nat \<Rightarrow> string list \<Rightarrow> Subtask list" where
  "finalSubtasks g n titles =
     map (\<lambda>(k, t). \<lparr> sub_id = g k, sub_title = t, sub_completed = False \<rparr>)
       (enumerate n titles)"

definition onSubmit ::
  "(nat \<Rightarrow> string) \<Rightarrow> TaskDraft \<Rightarrow> string option \<Rightarrow> string list \<Rightarrow> Task list \<times> nat
    \<Rightarrow> Task list \<times> nat" where
  "onSubmit g values finalDueDate titles st =
     (case st of (prevTasks, n) \<Rightarrow>
        (let subs = finalSubtasks g n titles;
             n' = n + length titles
         in (addTask (g n') (values\<lparr> d_dueDate := finalDueDate, d_subtasks := subs \<rparr>)
               prevTasks,
             Suc n')))"

text \<open>A sequence of submissions, oldest first.\<close>

fun createAll ::
  "(nat \<Rightarrow> string) \<Rightarrow> (TaskDraft \<times> string option \<times> string list) list \<Rightarrow> Task list \<times> nat
    \<Rightarrow> Task list \<times> nat" where
  "createAll g [] st = st"
| "createAll g ((values, finalDueDate, titles) # rest) st =
     createAll g rest (onSubmit g values finalDueDate titles st)"

text \<open>Every task id and subtask id of a collection, in order.\<close>

definition allIds :: "Task list \<Rightarrow> string list" where
  "allIds tasks = concat (map (\<lambda>t. task_id t # map sub_id (subtasks t)) tasks)"


section \<open>View projection: \<^verbatim>\<open>filteredTasks\<close>\<close>

datatype StatusFilter = FilterAll | FilterActive | FilterOverdue | FilterCompleted

text \<open>
  Dates are ISO strings in the collection. The reading of a string as a date is a
  parameter: \<open>parseDate s\<close> is \<^verbatim>\<open>new Date(s).getTime()\<close>, the milliseconds since the
  epoch, and \<open>None\<close> is \<^verbatim>\<open>NaN\<close> (an invalid date). \<open>now\<close> is \<^verbatim>\<open>Date.now()\<close>.
  \<open>isPast\<close> is the function of \<^verbatim>\<open>date-fns\<close>, the comparison \<^verbatim>\<open>+date < Date.now()\<close>,
  which is false for \<^verbatim>\<open>NaN\<close>.
\<close>

definition isPast :: "int \<Rightarrow> int option \<Rightarrow> bool" where
  "isPast now d = (case d of None \<Rightarrow> False | Some ms \<Rightarrow> ms < now)"

text \<open>
  The callback of \<^verbatim>\<open>filter\<close>. In \<^verbatim>\<open>task.dueDate && isPast(...)\<close> a missing due
  date and the empty string are both falsy.
\<close>

definition statusMatches ::
  "(string \<Rightarrow> int option) \<Rightarrow> int \<Rightarrow> StatusFilter \<Rightarrow> Task \<Rightarrow> bool" where
  "statusMatches parseDate now statusFilter task =
     (if statusFilter = FilterCompleted then completed task
      else if statusFilter = FilterActive then \<not> completed task
      else if statusFilter = FilterOverdue then
        \<not> completed task \<and>
        (case dueDate task of
           None \<Rightarrow> False
         | Some s \<Rightarrow> s \<noteq> [] \<and> isPast now (parseDate s))
      else True)"

text \<open>\<^verbatim>\<open>new Date(t.dueDate || 0).getTime()\<close>.\<close>

definition dueTime :: "(string \<Rightarrow> int option) \<Rightarrow> Task \<Rightarrow> int option" where
  "dueTime parseDate t =
     (case dueDate t of
        None \<Rightarrow> Some 0
      | Some s \<Rightarrow> if s = [] then Some 0 else parseDate s)"

text \<open>The comparator given to \<^verbatim>\<open>sort\<close>; \<open>None\<close> is the result \<^verbatim>\<open>NaN\<close>.\<close>

definition compareTasks :: "(string \<Rightarrow> int option) \<Rightarrow> Task \<Rightarrow> Task \<Rightarrow> int option" where
  "compareTasks parseDate a b =
     (let c = (if completed a then 1 else - 1) - (if completed b then 1 else - 1) :: int
      in if c \<noteq> 0 then Some c
         else (case dueTime parseDate b of
                 None \<Rightarrow> None
               | Some tb \<Rightarrow> (case dueTime parseDate a of
                              None \<Rightarrow> None
                            | Some ta \<Rightarrow> Some (tb - ta))))"

text \<open>
  \<^verbatim>\<open>Array.prototype.sort\<close> with a comparator. The language standard takes a
  comparator result \<^verbatim>\<open>NaN\<close> as \<open>0\<close>, requires the sort to be stable, and fixes the
  result when the comparator is a consistent ordering; inserting the elements from
  the right, each before the first element that it does not follow, is that sort.
  For a comparator that is not consistent (here: one that returns \<^verbatim>\<open>NaN\<close>) the
  standard leaves the order to the implementation, and this function does not
  describe it.
\<close>

definition sortCompare :: "('a \<Rightarrow> 'a \<Rightarrow> int option) \<Rightarrow> 'a \<Rightarrow> 'a \<Rightarrow> int" where
  "sortCompare cmp x y = (case cmp x y of None \<Rightarrow> 0 | Some v \<Rightarrow> v)"

fun insertSorted :: "('a \<Rightarrow> 'a \<Rightarrow> int option) \<Rightarrow> 'a \<Rightarrow> 'a list \<Rightarrow> 'a list" where
  "insertSorted cmp x [] = [x]"
| "insertSorted cmp x (y # ys) =
     (if sortCompare cmp x y \<le> 0 then x # y # ys else y # insertSorted cmp x ys)"

definition arraySort :: "('a \<Rightarrow> 'a \<Rightarrow> int option) \<Rightarrow> 'a list \<Rightarrow> 'a list" where
  "arraySort cmp xs = foldr (insertSorted cmp) xs []"

definition filteredTasks ::
  "(string \<Rightarrow> int option) \<Rightarrow> int \<Rightarrow> StatusFilter \<Rightarrow> Task list \<Rightarrow> Task list" where
  "filteredTasks parseDate now statusFilter tasks =
     arraySort (compareTasks parseDate)
       (filter (statusMatches parseDate now statusFilter) tasks)"

text \<open>
  The sort key that the comparator induces when no due time is \<^verbatim>\<open>NaN\<close>: the
  completion flag first, then the due time of the comparator, later dates first.
\<close>

definition dueKey :: "(string \<Rightarrow> int option) \<Rightarrow> Task \<Rightarrow> int" where
  "dueKey parseDate t = nullish (dueTime parseDate t) 0"

definition sortKey :: "(string \<Rightarrow> int option) \<Rightarrow> Task \<Rightarrow> bool \<times> int" where
  "sortKey parseDate t = (completed t, - dueKey parseDate t)"


section \<open>JSON values and texts\<close>

text \<open>
  The values that \<^verbatim>\<open>JSON.parse\<close> returns and \<^verbatim>\<open>JSON.stringify\<close> prints. An
  object is the list of its properties in order; numbers are integers and the
  characters of a string are bytes.
\<close>

datatype json =
    JNull
  | JBool bool
  | JNumber int
  | JString string
  | JArray "json list"
  | JObject "(string \<times> json) list"

text \<open>
  \<^verbatim>\<open>JSON.stringify(value, null, 2)\<close> as the language standard defines it: strings
  are quoted, with escapes for the quote, the backslash and the control
  characters; an integer is printed in decimal; a non-empty array or object
  has one element or property on a line, indented by two more spaces than the
  line of its bracket, and \<^verbatim>\<open>": "\<close> between a key and its value.
\<close>

abbreviation dquote :: char where "dquote \<equiv> CHR 0x22"
abbreviation backslash :: char where "backslash \<equiv> CHR 0x5C"
abbreviation newline :: char where "newline \<equiv> CHR 0x0A"

definition hexDigit :: "nat \<Rightarrow> char" where
  "hexDigit d = (if d < 10 then char_of (48 + d) else char_of (87 + d))"

definition hexValue :: "char \<Rightarrow> nat option" where
  "hexValue c =
     (let n = of_char c :: nat
      in if 48 \<le> n \<and> n \<le> 57 then Some (n - 48)
         else if 97 \<le> n \<and> n \<le> 102 then Some (n - 87)
         else if 65 \<le> n \<and> n \<le> 70 then Some (n - 55)
         else None)"

definition escapeChar :: "char \<Rightarrow> string" where
  "escapeChar c =
     (if c = CHR 0x08 then [backslash, CHR ''b'']
      else if c = CHR 0x09 then [backslash, CHR ''t'']
      else if c = CHR 0x0A then [backslash, CHR ''n'']
      else if c = CHR 0x0C then [backslash, CHR ''f'']
      else if c = CHR 0x0D then [backslash, CHR ''r'']
      else if c = dquote then [backslash, dquote]
      else if c = backslash then [backslash, backslash]
      else if (of_char c :: nat) < 32 then
        [backslash, CHR ''u'', CHR ''0'', CHR ''0'',
         hexDigit (of_char c div 16), hexDigit (of_char c mod 16)]
      else [c])"

definition quoteJSONString :: "string \<Rightarrow> string" where
  "quoteJSONString s = dquote # concat (map escapeChar s) @ [dquote]"

definition digitChar :: "nat \<Rightarrow> char" where
  "digitChar d = char_of (48 + d)"

fun showNat :: "nat \<Rightarrow> string" where
  "showNat n = (if n < 10 then [digitChar n] else showNat (n div 10) @ [digitChar (n mod 10)])"

declare showNat.simps [simp del]

definition showInt :: "int \<Rightarrow> string" where
  "showInt i = (if i < 0 then CHR ''-'' # showNat (nat (- i)) else showNat (nat i))"

fun stringifyIndent :: "string \<Rightarrow> json \<Rightarrow> string"
  and stringifyElements :: "string \<Rightarrow> json list \<Rightarrow> string"
  and stringifyMembers :: "string \<Rightarrow> (string \<times> json) list \<Rightarrow> string" where
  "stringifyIndent ind JNull = ''null''"
| "stringifyIndent ind (JBool b) = (if b then ''true'' else ''false'')"
| "stringifyIndent ind (JNumber i) = showInt i"
| "stringifyIndent ind (JString s) = quoteJSONString s"
| "stringifyIndent ind (JArray elems) =
     (if elems = [] then ''[]''
      else CHR ''['' # newline # (ind @ ''  '') @ stringifyElements (ind @ ''  '') elems
             @ newline # ind @ '']'')"
| "stringifyIndent ind (JObject props) =
     (if props = [] then ''{}''
      else CHR ''{'' # newline # (ind @ ''  '') @ stringifyMembers (ind @ ''  '') props
             @ newline # ind @ ''}'')"
| "stringifyElements ind [] = []"
| "stringifyElements ind [v] = stringifyIndent ind v"
| "stringifyElements ind (v # w # vs) =
     stringifyIndent ind v @ CHR '','' # newline # ind @ stringifyElements ind (w # vs)"
| "stringifyMembers ind [] = []"
| "stringifyMembers ind [(k, v)] = quoteJSONString k @ '': '' @ stringifyIndent ind v"
| "stringifyMembers ind ((k, v) # p # ps) =
     quoteJSONString k @ '': '' @ stringifyIndent ind v
       @ CHR '','' # newline # ind @ stringifyMembers ind (p # ps)"

definition jsonStringify :: "json \<Rightarrow> string" where
  "jsonStringify v = stringifyIndent [] v"

text \<open>
  \<^verbatim>\<open>JSON.parse\<close> by recursive descent on the grammar of JSON texts; \<open>None\<close> is the
  exception \<^verbatim>\<open>SyntaxError\<close>. A number with a fraction or an exponent and an
  escape \<^verbatim>\<open>\u\<close> above 255 have no value here and are refused; an integer is
  read exactly, and an object keeps every pair of a repeated key. On the texts
  that \<open>jsonStringify\<close> prints none of this shows. The functions
  for values, elements and members call each other with one unit of fuel less;
  \<open>jsonParse\<close> starts with more fuel than the text has characters.
\<close>

definition isWhitespace :: "char \<Rightarrow> bool" where
  "isWhitespace c \<longleftrightarrow> c = CHR '' '' \<or> c = CHR 0x0A \<or> c = CHR 0x0D \<or> c = CHR 0x09"

definition skipWhitespace :: "string \<Rightarrow> string" where
  "skipWhitespace s = dropWhile isWhitespace s"

definition isDigit :: "char \<Rightarrow> bool" where
  "isDigit c \<longleftrightarrow> 48 \<le> (of_char c :: nat) \<and> (of_char c :: nat) \<le> 57"

definition digitsValue :: "string \<Rightarrow> nat" where
  "digitsValue ds = foldl (\<lambda>a c. 10 * a + (of_char c - 48)) 0 ds"

definition parseNumber :: "string \<Rightarrow> (json \<times> string) option" where
  "parseNumber s =
     (let negative = (s \<noteq> [] \<and> hd s = CHR ''-'');
          s1 = (if negative then tl s else s);
          ds = takeWhile isDigit s1;
          rest = dropWhile isDigit s1
      in if ds = [] \<or> (length ds > 1 \<and> hd ds = CHR ''0'') then None
         else if rest \<noteq> [] \<and> hd rest \<in> set ''.eE'' then None
         else Some (JNumber (if negative then - int (digitsValue ds) else int (digitsValue ds)),
                    rest))"

definition unescape :: "char \<Rightarrow> char option" where
  "unescape e =
     (if e = dquote then Some dquote
      else if e = backslash then Some backslash
      else if e = CHR ''/'' then Some CHR ''/''
      else if e = CHR ''b'' then Some (CHR 0x08)
      else if e = CHR ''f'' then Some (CHR 0x0C)
      else if e = CHR ''n'' then Some (CHR 0x0A)
      else if e = CHR ''r'' then Some (CHR 0x0D)
      else if e = CHR ''t'' then Some (CHR 0x09)
      else None)"

definition hex4 :: "char \<Rightarrow> char \<Rightarrow> char \<Rightarrow> char \<Rightarrow> nat option" where
  "hex4 a b c d =
     (case (hexValue a, hexValue b, hexValue c, hexValue d) of
        (Some x, Some y, Some z, Some w) \<Rightarrow> Some (((x * 16 + y) * 16 + z) * 16 + w)
      | _ \<Rightarrow> None)"

definition consChar :: "char \<Rightarrow> (string \<times> string) option \<Rightarrow> (string \<times> string) option" where
  "consChar c r = map_option (\<lambda>(s, rest). (c # s, rest)) r"

fun parseChars :: "string \<Rightarrow> (string \<times> string) option" where
  "parseChars [] = None"
| "parseChars [c] = (if c = dquote then Some ([], []) else None)"
| "parseChars (c # e # cs) =
     (if c = dquote then Some ([], e # cs)
      else if c = backslash then
        (if e = CHR ''u'' then
           (case cs of
              a # b # c' # d # rest \<Rightarrow>
                (case hex4 a b c' d of
                   None \<Rightarrow> None
                 | Some code \<Rightarrow>
                     if code < 256 then consChar (char_of code) (parseChars rest) else None)
            | _ \<Rightarrow> None)
         else (case unescape e of
                 None \<Rightarrow> None
               | Some ch \<Rightarrow> consChar ch (parseChars cs)))
      else if (of_char c :: nat) < 32 then None
      else consChar c (parseChars (e # cs)))"

fun parseValue :: "nat \<Rightarrow> string \<Rightarrow> (json \<times> string) option"
  and parseElements :: "nat \<Rightarrow> string \<Rightarrow> (json list \<times> string) option"
  and parseMembers :: "nat \<Rightarrow> string \<Rightarrow> ((string \<times> json) list \<times> string) option" where
  "parseValue 0 s = None"
| "parseValue (Suc fuel) s =
     (case skipWhitespace s of
        [] \<Rightarrow> None
      | c # r \<Rightarrow>
          if c = CHR ''['' then
            (case skipWhitespace r of
               [] \<Rightarrow> None
             | c' # r' \<Rightarrow>
                 if c' = CHR '']'' then Some (JArray [], r')
                 else map_option (\<lambda>(vs, rest). (JArray vs, rest)) (parseElements fuel r))
          else if c = CHR ''{'' then
            (case skipWhitespace r of
               [] \<Rightarrow> None
             | c' # r' \<Rightarrow>
                 if c' = CHR ''}'' then Some (JObject [], r')
                 else map_option (\<lambda>(ps, rest). (JObject ps, rest)) (parseMembers fuel r))
          else if c = dquote then
            map_option (\<lambda>(str, rest). (JString str, rest)) (parseChars r)
          else if c = CHR ''n'' then
            (if take 3 r = ''ull'' then Some (JNull, drop 3 r) else None)
          else if c = CHR ''t'' then
            (if take 3 r = ''rue'' then Some (JBool True, drop 3 r) else None)
          else if c = CHR ''f'' then
            (if take 4 r = ''alse'' then Some (JBool False, drop 4 r) else None)
          else parseNumber (c # r))"
| "parseElements 0 s = None"
| "parseElements (Suc fuel) s =
     (case parseValue fuel s of
        None \<Rightarrow> None
      | Some (v, r) \<Rightarrow>
          (case skipWhitespace r of
             [] \<Rightarrow> None
           | c # r' \<Rightarrow>
               if c = CHR '','' then
                 map_option (\<lambda>(vs, rest). (v # vs, rest)) (parseElements fuel r')
               else if c = CHR '']'' then Some ([v], r')
               else None))"
| "parseMembers 0 s = None"
| "parseMembers (Suc fuel) s =
     (case skipWhitespace s of
        [] \<Rightarrow> None
      | q # r \<Rightarrow>
          if q \<noteq> dquote then None
          else
            (case parseChars r of
               None \<Rightarrow> None
             | Some (k, r1) \<Rightarrow>
                 (case skipWhitespace r1 of
                    [] \<Rightarrow> None
                  | c # r2 \<Rightarrow>
                      if c \<noteq> CHR '':'' then None
                      else
                        (case parseValue fuel r2 of
                           None \<Rightarrow> None
                         | Some (v, r3) \<Rightarrow>
                             (case skipWhitespace r3 of
                                [] \<Rightarrow> None
                              | c' # r4 \<Rightarrow>
                                  if c' = CHR '','' then
                                    map_option (\<lambda>(ps, rest). ((k, v) # ps, rest))
                                      (parseMembers fuel r4)
                                  else if c' = CHR ''}'' then Some ([(k, v)], r4)
                                  else None)))))"

definition jsonParse :: "string \<Rightarrow> json option" where
  "jsonParse s =
     (case parseValue (Suc (length s)) s of
        None \<Rightarrow> None
      | Some (v, rest) \<Rightarrow> if skipWhitespace rest = [] then Some v else None)"

text \<open>
  Two notions for the proofs about the parser: the fuel that is enough to read
  back a value, and the texts that may follow a number (a number ends where the
  digits end).
\<close>

fun fuelOf :: "json \<Rightarrow> nat"
  and fuelOfElements :: "json list \<Rightarrow> nat"
  and fuelOfMembers :: "(string \<times> json) list \<Rightarrow> nat" where
  "fuelOf (JArray elems) = Suc (fuelOfElements elems)"
| "fuelOf (JObject props) = Suc (fuelOfMembers props)"
| "fuelOf v = 1"
| "fuelOfElements [] = 0"
| "fuelOfElements (v # vs) = Suc (fuelOf v + fuelOfElements vs)"
| "fuelOfMembers [] = 0"
| "fuelOfMembers ((k, v) # ps) = Suc (fuelOf v + fuelOfMembers ps)"

definition numberEnd :: "string \<Rightarrow> bool" where
  "numberEnd rest \<longleftrightarrow> rest = [] \<or> (\<not> isDigit (hd rest) \<and> hd rest \<notin> set ''.eE'')"


section \<open>Persistence: \<^verbatim>\<open>exportTasks\<close> and \<^verbatim>\<open>importTasks\<close>\<close>

text \<open>
  The exceptions that the body of the \<^verbatim>\<open>try\<close> block can throw, and the toasts of
  the page.
\<close>

datatype exn = SyntaxError | TypeError | Error string

datatype toast = ToastExported | ToastImported | ToastCouldNotRead | ToastCouldNotImport

text \<open>
  The operator \<^verbatim>\<open>in\<close> for the keys \<^verbatim>\<open>'id'\<close> and \<^verbatim>\<open>'title'\<close>: it throws a
  \<^verbatim>\<open>TypeError\<close> when the right operand is not an object; an array is an object
  without these keys. \<open>hasIdAndTitle\<close> is the callback of \<^verbatim>\<open>every\<close>, which stops
  at the first element that fails or throws.
\<close>

definition inOperator :: "string \<Rightarrow> json \<Rightarrow> exn + bool" where
  "inOperator k v =
     (case v of
        JObject props \<Rightarrow> Inr (k \<in> set (map fst props))
      | JArray elems \<Rightarrow> Inr False
      | _ \<Rightarrow> Inl TypeError)"

definition hasIdAndTitle :: "json \<Rightarrow> exn + bool" where
  "hasIdAndTitle task =
     (case inOperator ''id'' task of
        Inl e \<Rightarrow> Inl e
      | Inr b \<Rightarrow> if b then inOperator ''title'' task else Inr False)"

fun every :: "('a \<Rightarrow> exn + bool) \<Rightarrow> 'a list \<Rightarrow> exn + bool" where
  "every p [] = Inr True"
| "every p (x # xs) =
     (case p x of
        Inl e \<Rightarrow> Inl e
      | Inr b \<Rightarrow> if b then every p xs else Inr False)"

text \<open>
  \<open>tryImport\<close> is the body of the \<^verbatim>\<open>try\<close> block up to the call of \<^verbatim>\<open>setTasks\<close>;
  \<open>importTasks\<close> is the handler \<^verbatim>\<open>reader.onload\<close>, from the result of the file
  reader (\<open>None\<close> when it is not a string) and the collection to the new
  collection and the toast. The collection is a JSON value here, since the page
  stores what it parsed. The parser is a parameter.
\<close>

definition tryImport :: "(string \<Rightarrow> json option) \<Rightarrow> string \<Rightarrow> exn + json" where
  "tryImport parse text =
     (case parse text of
        None \<Rightarrow> Inl SyntaxError
      | Some tasksToImport \<Rightarrow>
          (case tasksToImport of
             JArray elems \<Rightarrow>
               (case every hasIdAndTitle elems of
                  Inl e \<Rightarrow> Inl e
                | Inr ok \<Rightarrow>
                    if \<not> ok then Inl (Error ''Invalid file format.'')
                    else Inr tasksToImport)
           | _ \<Rightarrow> Inl (Error ''Invalid file format.'')))"

definition importTasks ::
  "(string \<Rightarrow> json option) \<Rightarrow> string option \<Rightarrow> json \<Rightarrow> json \<times> toast" where
  "importTasks parse result tasks =
     (case result of
        None \<Rightarrow> (tasks, ToastCouldNotRead)
      | Some text \<Rightarrow>
          (case tryImport parse text of
             Inl e \<Rightarrow> (tasks, ToastCouldNotImport)
           | Inr tasksToImport \<Rightarrow> (tasksToImport, ToastImported)))"

text \<open>
  The collection as \<^verbatim>\<open>JSON.stringify\<close> sees it: a property whose value is
  \<^verbatim>\<open>undefined\<close> is left out. The properties are listed in the order of the
  interface, while an object of the page lists them in the order they were set;
  reading a property does not depend on the order. \<open>exportTasks\<close> is the text
  of the downloaded file.
\<close>

definition optionalProperty :: "string \<Rightarrow> ('a \<Rightarrow> json) \<Rightarrow> 'a option \<Rightarrow> (string \<times> json) list" where
  "optionalProperty k enc x = (case x of None \<Rightarrow> [] | Some v \<Rightarrow> [(k, enc v)])"

definition subtaskToJson :: "Subtask \<Rightarrow> json" where
  "subtaskToJson sub =
     JObject [(''id'', JString (sub_id sub)), (''title'', JString (sub_title sub)),
              (''completed'', JBool (sub_completed sub))]"

definition typeToJson :: "TaskType \<Rightarrow> json" where
  "typeToJson ty = JString (case ty of Daily \<Rightarrow> ''daily'' | Scheduled \<Rightarrow> ''scheduled'')"

definition unitToJson :: "IntervalUnit \<Rightarrow> json" where
  "unitToJson u =
     JString (case u of Minutes \<Rightarrow> ''minutes'' | Hours \<Rightarrow> ''hours'' | Days \<Rightarrow> ''days'')"

definition taskToJson :: "Task \<Rightarrow> json" where
  "taskToJson t = JObject
     ([(''id'', JString (task_id t)), (''title'', JString (title t))]
      @ optionalProperty ''description'' JString (description t)
      @ [(''type'', typeToJson (task_type t))]
      @ optionalProperty ''dueDate'' JString (dueDate t)
      @ [(''completed'', JBool (completed t))]
      @ optionalProperty ''completedAt'' JString (completedAt t)
      @ [(''subtasks'', JArray (map subtaskToJson (subtasks t)))]
      @ optionalProperty ''isRecurring'' JBool (isRecurring t)
      @ optionalProperty ''recurringInterval'' JNumber (recurringInterval t)
      @ optionalProperty ''recurringIntervalUnit'' unitToJson (recurringIntervalUnit t)
      @ optionalProperty ''repetitions'' JNumber (repetitions t)
      @ optionalProperty ''startTime'' JString (startTime t)
      @ optionalProperty ''imageUrl'' JString (imageUrl t))"

definition tasksToJson :: "Task list \<Rightarrow> json" where
  "tasksToJson tasks = JArray (map taskToJson tasks)"

definition exportTasks :: "Task list \<Rightarrow> string" where
  "exportTasks tasks = jsonStringify (tasksToJson tasks)"

text \<open>
  Reading a parsed value as a task: \<open>property v k\<close> is \<^verbatim>\<open>v[k]\<close>, with \<open>None\<close> for
  \<^verbatim>\<open>undefined\<close>; a field is read back when the property has the type of the
  field, and an optional field also when the property is missing.
\<close>

definition property :: "json \<Rightarrow> string \<Rightarrow> json option" where
  "property v k = (case v of JObject props \<Rightarrow> map_of props k | _ \<Rightarrow> None)"

definition required :: "(json \<Rightarrow> 'a option) \<Rightarrow> json option \<Rightarrow> 'a option" where
  "required dec x = (case x of None \<Rightarrow> None | Some v \<Rightarrow> dec v)"

definition optional :: "(json \<Rightarrow> 'a option) \<Rightarrow> json option \<Rightarrow> 'a option option" where
  "optional dec x = (case x of None \<Rightarrow> Some None | Some v \<Rightarrow> map_option Some (dec v))"

definition stringOfJson :: "json \<Rightarrow> string option" where
  "stringOfJson v = (case v of JString s \<Rightarrow> Some s | _ \<Rightarrow> None)"

definition boolOfJson :: "json \<Rightarrow> bool option" where
  "boolOfJson v = (case v of JBool b \<Rightarrow> Some b | _ \<Rightarrow> None)"

definition numberOfJson :: "json \<Rightarrow> int option" where
  "numberOfJson v = (case v of JNumber i \<Rightarrow> Some i | _ \<Rightarrow> None)"

definition typeOfJson :: "json \<Rightarrow> TaskType option" where
  "typeOfJson v =
     (if v = JString ''daily'' then Some Daily
      else if v = JString ''scheduled'' then Some Scheduled
      else None)"

definition unitOfJson :: "json \<Rightarrow> IntervalUnit option" where
  "unitOfJson v =
     (if v = JString ''minutes'' then Some Minutes
      else if v = JString ''hours'' then Some Hours
      else if v = JString ''days'' then Some Days
      else None)"

definition subtaskOfJson :: "json \<Rightarrow> Subtask option" where
  "subtaskOfJson v = do {
     i \<leftarrow> required stringOfJson (property v ''id'');
     t \<leftarrow> required stringOfJson (property v ''title'');
     c \<leftarrow> required boolOfJson (property v ''completed'');
     Some \<lparr> sub_id = i, sub_title = t, sub_completed = c \<rparr> }"

definition subtasksOfJson :: "json \<Rightarrow> Subtask list option" where
  "subtasksOfJson v = (case v of JArray elems \<Rightarrow> those (map subtaskOfJson elems) | _ \<Rightarrow> None)"

definition taskOfJson :: "json \<Rightarrow> Task option" where
  "taskOfJson v = do {
     i \<leftarrow> required stringOfJson (property v ''id'');
     ti \<leftarrow> required stringOfJson (property v ''title'');
     de \<leftarrow> optional stringOfJson (property v ''description'');
     ty \<leftarrow> required typeOfJson (property v ''type'');
     du \<leftarrow> optional stringOfJson (property v ''dueDate'');
     co \<leftarrow> required boolOfJson (property v ''completed'');
     ca \<leftarrow> optional stringOfJson (property v ''completedAt'');
     su \<leftarrow> required subtasksOfJson (property v ''subtasks'');
     re \<leftarrow> optional boolOfJson (property v ''isRecurring'');
     iv \<leftarrow> optional numberOfJson (property v ''recurringInterval'');
     un \<leftarrow> optional unitOfJson (property v ''recurringIntervalUnit'');
     rp \<leftarrow> optional numberOfJson (property v ''repetitions'');
     st \<leftarrow> optional stringOfJson (property v ''startTime'');
     im \<leftarrow> optional stringOfJson (property v ''imageUrl'');
     Some \<lparr> task_id = i, title = ti, description = de, task_type = ty, dueDate = du,
            completed = co, completedAt = ca, subtasks = su, isRecurring = re,
            recurringInterval = iv, recurringIntervalUnit = un, repetitions = rp,
            startTime = st, imageUrl = im \<rparr> }"

definition tasksOfJson :: "json \<Rightarrow> Task list option" where
  "tasksOfJson v = (case v of JArray elems \<Rightarrow> those (map taskOfJson elems) | _ \<Rightarrow> None)"


section \<open>Sample data\<close>

text \<open>
  Concrete tasks, changes, dates, identifiers and documents, on which the
  theorems below are instantiated.
\<close>

definition sampleTask :: Task where
  "sampleTask =
     \<lparr> task_id = ''t1'', title = ''Water the plants'', description = None,
       task_type = Daily, dueDate = None, completed = False, completedAt = None,
       subtasks = [\<lparr> sub_id = ''s1'', sub_title = ''Fill the can'', sub_completed = False \<rparr>],
       isRecurring = Some True, recurringInterval = Some 1,
       recurringIntervalUnit = Some Days, repetitions = Some 3,
       startTime = None, imageUrl = None \<rparr>"

definition sampleDone :: Task where
  "sampleDone =
     sampleTask\<lparr> completed := True, completedAt := Some ''2024-05-01T10:00:00.000Z'' \<rparr>"

definition otherTask :: Task where
  "otherTask = sampleTask\<lparr> task_id := ''t2'', title := ''Read a chapter'', subtasks := [] \<rparr>"

definition completeUpdate :: TaskUpdates where
  "completeUpdate = noUpdates\<lparr> u_completed := Some True \<rparr>"

definition sampleParse :: "string \<Rightarrow> int option" where
  "sampleParse s =
     (if s = ''2024-05-01T10:00:00.000Z'' then Some 1714557600000
      else if s = ''2024-05-03T10:00:00.000Z'' then Some 1714730400000
      else None)"

definition taskA :: Task where
  "taskA = otherTask\<lparr> task_id := ''A'', task_type := Scheduled,
             dueDate := Some ''2024-05-01T10:00:00.000Z'' \<rparr>"

definition taskB :: Task where
  "taskB = otherTask\<lparr> task_id := ''B'', task_type := Scheduled,
             dueDate := Some ''2024-05-03T10:00:00.000Z'' \<rparr>"

definition taskC :: Task where
  "taskC = otherTask\<lparr> task_id := ''C'', completed := True,
             completedAt := Some ''2024-05-01T10:00:00.000Z'' \<rparr>"

definition taskA2 :: Task where
  "taskA2 = taskA\<lparr> task_id := ''A2'' \<rparr>"

definition earlyParse :: "string \<Rightarrow> int option" where
  "earlyParse s = (if s = ''1969-12-31T00:00:00.000Z'' then Some (- 86400000) else None)"

definition taskEarly :: Task where
  "taskEarly = otherTask\<lparr> task_id := ''E'', task_type := Scheduled,
                 dueDate := Some ''1969-12-31T00:00:00.000Z'' \<rparr>"

definition taskEmpty :: Task where
  "taskEmpty = otherTask\<lparr> task_id := ''0'', dueDate := Some [] \<rparr>"


definition sampleUuid :: "nat \<Rightarrow> string" where
  "sampleUuid k = replicate (Suc k) CHR ''u''"

definition sampleDraft :: TaskDraft where
  "sampleDraft = \<lparr> d_title = ''Pack'', d_description = None, d_type = Daily, d_dueDate = None,
     d_subtasks = [], d_isRecurring = Some False, d_recurringInterval = None,
     d_recurringIntervalUnit = None, d_repetitions = None, d_startTime = None,
     d_imageUrl = None \<rparr>"

definition sampleImport :: json where
  "sampleImport = JArray [JObject [(''id'', JString ''1''), (''title'', JString ''Pack'')]]"


section \<open>Facts about the lookup and the update\<close>

lemma findIndex_None_iff: "findIndex p xs = None \<longleftrightarrow> (\<forall>x \<in> set xs. \<not> p x)"
  by (induction xs) auto

lemma findIndex_Some_D:
  "findIndex p xs = Some k \<Longrightarrow> k < length xs \<and> p (xs ! k) \<and> (\<forall>j < k. \<not> p (xs ! j))"
proof (induction xs arbitrary: k)
  case Nil
  then show ?case by simp
next
  case (Cons x xs)
  show ?case
  proof (cases "p x")
    case True
    with Cons.prems show ?thesis by simp
  next
    case False
    with Cons.prems obtain k' where k': "findIndex p xs = Some k'" "k = Suc k'"
      by auto
    from Cons.IH [OF k'(1)] False k'(2) show ?thesis
      by (auto simp: nth_Cons less_Suc_eq_0_disj split: nat.splits)
  qed
qed


lemma findIndex_first:
  "k < length xs \<Longrightarrow> p (xs ! k) \<Longrightarrow> \<forall>j<k. \<not> p (xs ! j) \<Longrightarrow> findIndex p xs = Some k"
proof (induction xs arbitrary: k)
  case Nil
  then show ?case by simp
next
  case (Cons x xs)
  show ?case
  proof (cases k)
    case 0
    with Cons.prems show ?thesis by simp
  next
    case (Suc k')
    with Cons.prems have "\<not> p x" by auto
    moreover from Suc Cons.prems have "findIndex p xs = Some k'"
      by (intro Cons.IH) auto
    ultimately show ?thesis using Suc by simp
  qed
qed

lemma updateTask_found:
  assumes "findIndex (\<lambda>task. task_id task = i) tasks = Some k"
  shows "updateTask newId i u tasks =
           tasks[k := mergeTask (tasks ! k) u] @
           (if u_completed u = Some True \<and> isRecurring (tasks ! k) = Some True
               \<and> 1 < nullish (repetitions (tasks ! k)) 0
            then [successorTask newId (nullish (repetitions (tasks ! k)) 0 - 1) (tasks ! k)]
            else [])"
  using assms
  by (cases "repetitions (tasks ! k)") (auto simp: updateTask_def Let_def nullish_def)

lemma mergeTask_completeUpdate:
  "mergeTask t completeUpdate = t\<lparr> completed := True \<rparr>"
  by (simp add: mergeTask_def completeUpdate_def noUpdates_def spread_def)





lemma inj_sampleUuid: "inj sampleUuid"
proof (rule injI)
  fix x y
  assume "sampleUuid x = sampleUuid y"
  then have "length (sampleUuid x) = length (sampleUuid y)" by simp
  then show "x = y" by (simp add: sampleUuid_def)
qed


section \<open>Unknown ids\<close>

text \<open>
  Claim C7. When no task of the collection has the id \<open>i\<close>, both
  \<open>updateTask\<close> (for every set of changes and every id the generator could
  return) and \<open>deleteTask\<close> return the collection as it is.
\<close>

theorem unknown_id_noop:
  assumes "\<forall>t \<in> set tasks. task_id t \<noteq> i"
  shows "updateTask newId i updates tasks = tasks \<and> deleteTask i tasks = tasks"
proof -
  from assms have "findIndex (\<lambda>task. task_id task = i) tasks = None"
    by (simp add: findIndex_None_iff)
  then have "updateTask newId i updates tasks = tasks"
    by (simp add: updateTask_def)
  moreover from assms have "deleteTask i tasks = tasks"
    by (simp add: deleteTask_def)
  ultimately show ?thesis by simp
qed

theorem unknown_id_noop_witness:
  "task_id sampleTask \<noteq> ''t2'' \<and>
   updateTask ''n1'' ''t2'' completeUpdate [sampleTask] = [sampleTask] \<and>
   deleteTask ''t2'' [sampleTask] = [sampleTask]"
  using unknown_id_noop [of "[sampleTask]" "''t2''" "''n1''" completeUpdate]
  by (simp add: sampleTask_def)


section \<open>Frame of an update\<close>

text \<open>
  Claim C10. For every collection, id and set of changes, \<open>updateTask\<close> keeps every
  task whose id is not the target's at its index and equal in every field; the
  result is at most one element longer than the collection, so the only addition
  is one task at the end.
\<close>

theorem update_frame:
  "length tasks \<le> length (updateTask newId i updates tasks) \<and>
   length (updateTask newId i updates tasks) \<le> Suc (length tasks) \<and>
   (\<forall>j < length tasks. task_id (tasks ! j) \<noteq> i \<longrightarrow>
      updateTask newId i updates tasks ! j = tasks ! j)"
proof (cases "findIndex (\<lambda>task. task_id task = i) tasks")
  case None
  then show ?thesis by (simp add: updateTask_def)
next
  case (Some k)
  from findIndex_Some_D [OF Some] have k: "k < length tasks" "task_id (tasks ! k) = i"
    by simp_all
  have "\<forall>j < length tasks. task_id (tasks ! j) \<noteq> i \<longrightarrow> j \<noteq> k"
    using k by auto
  then show ?thesis
    unfolding updateTask_found [OF Some]
    by (auto simp: nth_append)
qed

theorem update_frame_witness:
  "task_id ([sampleTask, otherTask] ! 1) \<noteq> ''t1'' \<and>
   updateTask ''n1'' ''t1'' completeUpdate [sampleTask, otherTask] ! 1 = otherTask \<and>
   length (updateTask ''n1'' ''t1'' completeUpdate [sampleTask, otherTask]) = 3"
  using update_frame [of "[sampleTask, otherTask]" "''n1''" "''t1''" completeUpdate]
  by (simp add: sampleTask_def otherTask_def completeUpdate_def noUpdates_def updateTask_def
      mergeTask_def spread_def nullish_def)


section \<open>Recurrence\<close>




text \<open>
  Claim C2, amended. For a recurring task with \<open>repetitions = n\<close> that is the first
  with its id, the update \<^verbatim>\<open>{completed: true}\<close> appends one successor exactly when
  \<open>n > 1\<close>, whether or not the task was completed before: the update's own
  \<open>completed = true\<close> triggers the spawn, not a change from false to true. Two such
  updates in a row append two successors when \<open>n > 1\<close> and none otherwise.
\<close>

theorem spawn_is_level_triggered:
  assumes "k < length tasks" and "task_id (tasks ! k) = i"
    and "\<forall>j<k. task_id (tasks ! j) \<noteq> i"
    and "isRecurring (tasks ! k) = Some True"
    and "repetitions (tasks ! k) = Some n"
  shows "length (updateTask newId i completeUpdate tasks) =
           length tasks + (if 1 < n then 1 else 0)
       \<and> length (updateTask newId' i completeUpdate (updateTask newId i completeUpdate tasks)) =
           length tasks + (if 1 < n then 2 else 0)"
proof -
  let ?t = "tasks ! k"
  let ?tasks' = "updateTask newId i completeUpdate tasks"
  have cu: "u_completed completeUpdate = Some True"
    by (simp add: completeUpdate_def)
  from assms(1-3) have found: "findIndex (\<lambda>task. task_id task = i) tasks = Some k"
    by (intro findIndex_first) auto
  have first: "?tasks' = tasks[k := ?t\<lparr> completed := True \<rparr>] @
      (if 1 < n then [successorTask newId (n - 1) ?t] else [])"
    using assms(4,5) cu
    by (simp add: updateTask_found [OF found] nullish_def mergeTask_completeUpdate)
  have k': "k < length ?tasks'" "?tasks' ! k = ?t\<lparr> completed := True \<rparr>"
    using assms(1) by (simp_all add: first nth_append)
  have "\<forall>j<k. task_id (?tasks' ! j) \<noteq> i"
    using assms(1,3) by (simp add: first nth_append)
  with k' assms(2) have found': "findIndex (\<lambda>task. task_id task = i) ?tasks' = Some k"
    by (intro findIndex_first) auto
  have "length (updateTask newId' i completeUpdate ?tasks') =
      length ?tasks' + (if 1 < n then 1 else 0)"
    using assms(4,5) cu k'(2)
    by (simp add: updateTask_found [OF found'] nullish_def)
  moreover have "length ?tasks' = length tasks + (if 1 < n then 1 else 0)"
    by (simp add: first)
  ultimately show ?thesis by simp
qed

theorem spawn_is_level_triggered_witness:
  "completed sampleDone \<and>
   length (updateTask ''n2'' ''t1'' completeUpdate [sampleDone]) = 2 \<and>
   length (updateTask ''n3'' ''t1'' completeUpdate
             (updateTask ''n2'' ''t1'' completeUpdate [sampleDone])) = 3"
  using spawn_is_level_triggered [of 0 "[sampleDone]" "''t1''" 3 "''n2''" "''n3''"]
  by (simp add: sampleDone_def sampleTask_def)

text \<open>
  The claim as it was stated fails: the update on the sample task that is already
  completed appends a successor, and two updates in a row on the sample task leave
  three tasks, the task and two successors.
\<close>

theorem recompletion_counterexample:
  "completed sampleDone \<and> isRecurring sampleDone = Some True \<and>
   updateTask ''n2'' ''t1'' completeUpdate [sampleDone] =
     [sampleDone,
      sampleDone\<lparr> task_id := ''n2'', completed := False, completedAt := None,
                  repetitions := Some 2 \<rparr>] \<and>
   length (updateTask ''n2'' ''t1'' completeUpdate
             (updateTask ''n1'' ''t1'' completeUpdate [sampleTask])) = 3"
  by (simp add: sampleDone_def sampleTask_def completeUpdate_def noUpdates_def updateTask_def
      mergeTask_def spread_def nullish_def successorTask_def resetSubtask_def)


section \<open>Completion invariants\<close>








section \<open>Creation\<close>

lemma sub_id_finalSubtasks:
  "map sub_id (finalSubtasks g n titles) = map g [n..<n + length titles]"
proof -
  have 1: "map sub_id (finalSubtasks g n titles) =
      map (\<lambda>x. g (fst x)) (zip [n..<n + length titles] titles)"
    by (simp add: finalSubtasks_def enumerate_eq_zip comp_def split_beta)
  have 2: "map (\<lambda>x. g (fst x)) zs = map g (map fst zs)" for zs :: "(nat \<times> string) list"
    by (simp add: comp_def)
  have 3: "map fst (zip [n..<n + length titles] titles) = [n..<n + length titles]"
    by (rule map_fst_zip) simp
  show ?thesis
    unfolding 1 2 3 ..
qed

lemma sub_title_finalSubtasks:
  "map sub_title (finalSubtasks g n titles) = titles"
proof -
  have "map sub_title (finalSubtasks g n titles) =
      map snd (zip [n..<n + length titles] titles)"
    by (simp add: finalSubtasks_def enumerate_eq_zip comp_def split_beta)
  also have "\<dots> = titles"
    by (rule map_snd_zip) simp
  finally show ?thesis .
qed

lemma fst_onSubmit:
  "fst (onSubmit g values due titles (tasks, n)) =
     addTask (g (n + length titles))
       (values\<lparr> d_dueDate := due, d_subtasks := finalSubtasks g n titles \<rparr>) tasks"
  by (simp add: onSubmit_def Let_def)

lemma allIds_append: "allIds (xs @ ys) = allIds xs @ allIds ys"
  by (simp add: allIds_def)

lemma allIds_onSubmit:
  "allIds (fst (onSubmit g values due titles (tasks, n))) =
     allIds tasks @ g (n + length titles) # map g [n..<n + length titles]"
  by (simp add: fst_onSubmit addTask_def allIds_append) (simp add: allIds_def sub_id_finalSubtasks)

lemma snd_onSubmit: "snd (onSubmit g values due titles (tasks, n)) = Suc (n + length titles)"
  by (simp add: onSubmit_def Let_def)

lemma onSubmit_generated:
  assumes "inj g" and "distinct (allIds tasks)" and "set (allIds tasks) \<subseteq> g ` {..<n}"
  shows "distinct (allIds (fst (onSubmit g values due titles (tasks, n))))
       \<and> set (allIds (fst (onSubmit g values due titles (tasks, n)))) \<subseteq>
           g ` {..<snd (onSubmit g values due titles (tasks, n))}"
proof -
  let ?m = "n + length titles"
  have "inj_on g (set [n..<?m])"
    using assms(1) by (rule inj_on_subset [OF _ subset_UNIV])
  then have new: "distinct (g ?m # map g [n..<?m])"
    by (auto simp: distinct_map inj_eq [OF assms(1)])
  have "set (g ?m # map g [n..<?m]) \<inter> g ` {..<n} = {}"
    by (auto simp: inj_eq [OF assms(1)])
  with assms(3) have disj: "set (allIds tasks) \<inter> set (g ?m # map g [n..<?m]) = {}"
    by blast
  have sub: "set (g ?m # map g [n..<?m]) \<subseteq> g ` {..<Suc ?m}"
    by auto
  have "g ` {..<n} \<subseteq> g ` {..<Suc ?m}"
    by (intro image_mono) auto
  with assms(3) sub have "set (allIds tasks) \<union> set (g ?m # map g [n..<?m]) \<subseteq> g ` {..<Suc ?m}"
    by blast
  with new disj assms(2) show ?thesis
    unfolding allIds_onSubmit snd_onSubmit by (simp only: distinct_append set_append simp_thms)
qed

lemma createAll_generated:
  assumes "inj g" and "distinct (allIds (fst st))" and "set (allIds (fst st)) \<subseteq> g ` {..<snd st}"
  shows "distinct (allIds (fst (createAll g drafts st)))"
  using assms(2,3)
proof (induction drafts arbitrary: st)
  case Nil
  then show ?case by simp
next
  case (Cons d drafts)
  obtain v due titles where d: "d = (v, due, titles)"
    by (cases d)
  obtain tasks n where st: "st = (tasks, n)"
    by (cases st)
  from Cons.prems st have "distinct (allIds tasks)" "set (allIds tasks) \<subseteq> g ` {..<n}"
    by simp_all
  from onSubmit_generated [OF assms(1) this, of v due titles]
  have "distinct (allIds (fst (createAll g drafts (onSubmit g v due titles (tasks, n)))))"
    by (intro Cons.IH) simp_all
  then show ?case by (simp add: d st)
qed

text \<open>
  Claim C6. For every draft that has passed validation and every collection, the
  submission appends exactly one task at the end and leaves the tasks before it
  as they were; the new task has the id that \<^verbatim>\<open>uuidv4\<close> returned, which no earlier
  call returned, \<open>completed = false\<close> and no \<open>completedAt\<close>, and takes its fields
  from the draft. \<open>onSubmit\<close> is a total function: the submission has no failure
  branch. When \<^verbatim>\<open>uuidv4\<close> never returns a value twice (\<open>g\<close> is injective), the task
  and subtask ids after any sequence of submissions are pairwise distinct, from
  the empty collection and from any collection whose ids are distinct and were
  generated before.
\<close>

theorem create_appends_fresh:
  assumes "inj g"
  shows "length (fst (onSubmit g values due titles (tasks, n))) = Suc (length tasks)
       \<and> take (length tasks) (fst (onSubmit g values due titles (tasks, n))) = tasks
       \<and> task_id (last (fst (onSubmit g values due titles (tasks, n)))) = g (n + length titles)
       \<and> \<not> completed (last (fst (onSubmit g values due titles (tasks, n))))
       \<and> completedAt (last (fst (onSubmit g values due titles (tasks, n)))) = None
       \<and> title (last (fst (onSubmit g values due titles (tasks, n)))) = d_title values
       \<and> map sub_title (subtasks (last (fst (onSubmit g values due titles (tasks, n))))) = titles
       \<and> (set (allIds tasks) \<subseteq> g ` {..<n} \<longrightarrow>
            task_id (last (fst (onSubmit g values due titles (tasks, n)))) \<notin> set (allIds tasks))
       \<and> (distinct (allIds tasks) \<and> set (allIds tasks) \<subseteq> g ` {..<n} \<longrightarrow>
            distinct (allIds (fst (createAll g drafts (tasks, n)))))
       \<and> distinct (allIds (fst (createAll g drafts ([], 0))))"
proof -
  let ?r = "fst (onSubmit g values due titles (tasks, n))"
  have shape: "length ?r = Suc (length tasks)" "take (length tasks) ?r = tasks"
    by (simp_all add: fst_onSubmit addTask_def)
  have lastt: "task_id (last ?r) = g (n + length titles)" "\<not> completed (last ?r)"
    "completedAt (last ?r) = None" "title (last ?r) = d_title values"
    by (simp_all add: fst_onSubmit addTask_def)
  have titles: "map sub_title (subtasks (last ?r)) = titles"
    by (simp add: fst_onSubmit addTask_def sub_title_finalSubtasks)
  have fresh: "task_id (last ?r) \<notin> set (allIds tasks)" if "set (allIds tasks) \<subseteq> g ` {..<n}"
  proof
    assume "task_id (last ?r) \<in> set (allIds tasks)"
    with that lastt(1) obtain k where "k < n" "g k = g (n + length titles)"
      by auto
    with assms show False by (simp add: inj_eq)
  qed
  have seq: "distinct (allIds (fst (createAll g drafts (tasks, n))))"
    if "distinct (allIds tasks) \<and> set (allIds tasks) \<subseteq> g ` {..<n}"
    using that by (intro createAll_generated [OF assms]) simp_all
  have "distinct (allIds (fst (createAll g drafts ([], 0))))"
    by (intro createAll_generated [OF assms]) (simp_all add: allIds_def)
  with shape lastt titles fresh seq show ?thesis
    by blast
qed

theorem create_appends_fresh_witness:
  "allIds (fst (createAll sampleUuid
       [(sampleDraft, None, [''a'', ''b'']), (sampleDraft, None, [''c''])] ([], 0))) =
     [''uuu'', ''u'', ''uu'', ''uuuuu'', ''uuuu'']
   \<and> distinct [''uuu'', ''u'', ''uu'', ''uuuuu'', ''uuuu'']
   \<and> task_id (last (fst (onSubmit sampleUuid sampleDraft None [''a'', ''b''] ([], 0)))) = ''uuu''
   \<and> length (fst (onSubmit sampleUuid sampleDraft None [''a'', ''b''] ([], 0))) = 1"
proof -
  have ids: "allIds (fst (createAll sampleUuid
       [(sampleDraft, None, [''a'', ''b'']), (sampleDraft, None, [''c''])] ([], 0))) =
     [''uuu'', ''u'', ''uu'', ''uuuuu'', ''uuuu'']"
    by (simp add: onSubmit_def addTask_def finalSubtasks_def enumerate_eq_zip allIds_def
        sampleUuid_def sampleDraft_def upt_rec)
  show ?thesis
    using create_appends_fresh [OF inj_sampleUuid, of sampleDraft None "[''a'', ''b'']" "[]" 0
        "[(sampleDraft, None, [''a'', ''b'']), (sampleDraft, None, [''c''])]"]
    unfolding ids by (simp add: sampleUuid_def)
qed


section \<open>Filter and sort\<close>

lemma mset_insertSorted: "mset (insertSorted cmp x ys) = add_mset x (mset ys)"
  by (induction ys) simp_all

lemma mset_arraySort: "mset (arraySort cmp xs) = mset xs"
  unfolding arraySort_def by (induction xs) (simp_all add: mset_insertSorted)

lemma statusMatches_overdue:
  assumes "parseDate [] = None"
  shows "statusMatches parseDate now FilterOverdue t \<longleftrightarrow>
         \<not> completed t \<and> (\<exists>d ms. dueDate t = Some d \<and> parseDate d = Some ms \<and> ms < now)"
proof (cases "dueDate t")
  case None
  then show ?thesis by (simp add: statusMatches_def)
next
  case (Some s)
  show ?thesis
  proof (cases "s = []")
    case True
    with Some assms show ?thesis by (simp add: statusMatches_def)
  next
    case False
    with Some show ?thesis
      by (cases "parseDate s") (simp_all add: statusMatches_def isPast_def)
  qed
qed

text \<open>
  Claim C4. For every collection and every status filter, the projection holds
  exactly, with multiplicity: every task for \<open>all\<close>; the tasks that are not
  completed for \<open>active\<close>; the completed tasks for \<open>completed\<close>; and for
  \<open>overdue\<close> the tasks that are not completed, have a due date, and whose due
  date is earlier than \<open>now\<close>. The hypothesis is a fact of the platform: the empty
  string is not a date.
\<close>

theorem filter_projection:
  assumes "parseDate [] = None"
  shows "mset (filteredTasks parseDate now FilterAll tasks) = mset tasks
       \<and> mset (filteredTasks parseDate now FilterActive tasks) =
           mset (filter (\<lambda>t. \<not> completed t) tasks)
       \<and> mset (filteredTasks parseDate now FilterCompleted tasks) =
           mset (filter (\<lambda>t. completed t) tasks)
       \<and> mset (filteredTasks parseDate now FilterOverdue tasks) =
           mset (filter (\<lambda>t. \<not> completed t \<and>
                   (\<exists>d ms. dueDate t = Some d \<and> parseDate d = Some ms \<and> ms < now)) tasks)"
proof -
  have "statusMatches parseDate now FilterAll = (\<lambda>t. True)"
    and "statusMatches parseDate now FilterActive = (\<lambda>t. \<not> completed t)"
    and "statusMatches parseDate now FilterCompleted = (\<lambda>t. completed t)"
    by (simp_all add: statusMatches_def fun_eq_iff)
  moreover have "statusMatches parseDate now FilterOverdue =
      (\<lambda>t. \<not> completed t \<and> (\<exists>d ms. dueDate t = Some d \<and> parseDate d = Some ms \<and> ms < now))"
    using statusMatches_overdue [of parseDate now] assms by (simp add: fun_eq_iff)
  ultimately show ?thesis
    by (simp add: filteredTasks_def mset_arraySort)
qed

theorem filter_projection_witness:
  "sampleParse [] = None
   \<and> mset (filteredTasks sampleParse 1714600000000 FilterAll [taskA, taskB, taskC]) =
       mset [taskA, taskB, taskC]
   \<and> mset (filteredTasks sampleParse 1714600000000 FilterActive [taskA, taskB, taskC]) =
       mset [taskA, taskB]
   \<and> mset (filteredTasks sampleParse 1714600000000 FilterCompleted [taskA, taskB, taskC]) =
       mset [taskC]
   \<and> mset (filteredTasks sampleParse 1714600000000 FilterOverdue [taskA, taskB, taskC]) =
       mset [taskA]"
proof -
  have h: "sampleParse [] = None" by (simp add: sampleParse_def)
  show ?thesis
    using h filter_projection [of sampleParse 1714600000000 "[taskA, taskB, taskC]"]
    by (simp add: taskA_def taskB_def taskC_def otherTask_def sampleTask_def sampleParse_def)
qed

lemma dueTime_valid:
  assumes "\<forall>s. dueDate t = Some s \<and> s \<noteq> [] \<longrightarrow> parseDate s \<noteq> None"
  shows "dueTime parseDate t = Some (dueKey parseDate t)"
  using assms by (auto simp: dueTime_def dueKey_def nullish_def split: option.splits)

lemma dueKey_cases:
  "dueDate t = None \<or> dueDate t = Some [] \<Longrightarrow> dueKey parseDate t = 0"
  "dueDate t = Some s \<Longrightarrow> s \<noteq> [] \<Longrightarrow> parseDate s = Some ms \<Longrightarrow> dueKey parseDate t = ms"
  by (auto simp: dueKey_def dueTime_def nullish_def)

lemma sortCompare_sortKey:
  assumes "dueTime parseDate a = Some (dueKey parseDate a)"
    and "dueTime parseDate b = Some (dueKey parseDate b)"
  shows "sortCompare (compareTasks parseDate) a b \<le> 0 \<longleftrightarrow>
         sortKey parseDate a \<le> sortKey parseDate b"
  using assms
  by (auto simp: sortCompare_def compareTasks_def sortKey_def less_eq_prod_def Let_def)

lemma insertSorted_insort_key:
  assumes "dueTime parseDate x = Some (dueKey parseDate x)"
    and "\<forall>y \<in> set ys. dueTime parseDate y = Some (dueKey parseDate y)"
  shows "insertSorted (compareTasks parseDate) x ys = insort_key (sortKey parseDate) x ys"
  using assms(2)
proof (induction ys)
  case Nil
  then show ?case by simp
next
  case (Cons y ys)
  then show ?case
    using sortCompare_sortKey [OF assms(1), of y] by simp
qed

lemma arraySort_sort_key:
  assumes "\<forall>y \<in> set xs. dueTime parseDate y = Some (dueKey parseDate y)"
  shows "arraySort (compareTasks parseDate) xs = sort_key (sortKey parseDate) xs"
  using assms
proof (induction xs)
  case Nil
  then show ?case by (simp add: arraySort_def)
next
  case (Cons x xs)
  then have IH: "arraySort (compareTasks parseDate) xs = sort_key (sortKey parseDate) xs"
    by simp
  have "arraySort (compareTasks parseDate) (x # xs) =
      insertSorted (compareTasks parseDate) x (arraySort (compareTasks parseDate) xs)"
    by (simp add: arraySort_def)
  also have "\<dots> = insort_key (sortKey parseDate) x (sort_key (sortKey parseDate) xs)"
    unfolding IH using Cons.prems by (intro insertSorted_insort_key) simp_all
  finally show ?case by simp
qed

text \<open>
  Claim C5, amended. For every collection in which every due date that is not
  the empty string denotes a date, the projection is a permutation of the
  filtered tasks in which no completed task stands before an incomplete one
  and, among tasks with the same completion flag, due times do not increase,
  where a task whose due date is missing or empty has the due time 0 (the
  epoch): in its group such a task stands after the tasks due after the epoch
  and before the tasks due before it, not last; and the tasks that share a
  completion flag and a due time stand in the order they had in the collection.
\<close>

theorem sort_projection:
  assumes "\<forall>t \<in> set tasks. \<forall>s. dueDate t = Some s \<and> s \<noteq> [] \<longrightarrow> parseDate s \<noteq> None"
  shows "mset (filteredTasks parseDate now statusFilter tasks) =
           mset (filter (statusMatches parseDate now statusFilter) tasks)
       \<and> sorted_wrt (\<lambda>a b. (completed a \<longrightarrow> completed b) \<and>
                     (completed a = completed b \<longrightarrow> dueKey parseDate b \<le> dueKey parseDate a))
           (filteredTasks parseDate now statusFilter tasks)
       \<and> (\<forall>t. dueDate t = None \<or> dueDate t = Some [] \<longrightarrow> dueKey parseDate t = 0)
       \<and> (\<forall>t s ms. dueDate t = Some s \<and> s \<noteq> [] \<and> parseDate s = Some ms \<longrightarrow>
             dueKey parseDate t = ms)
       \<and> (\<forall>i j. i < j \<and> j < length (filteredTasks parseDate now statusFilter tasks)
               \<and> completed (filteredTasks parseDate now statusFilter tasks ! i) =
                   completed (filteredTasks parseDate now statusFilter tasks ! j)
             \<longrightarrow> (dueDate (filteredTasks parseDate now statusFilter tasks ! i) = None \<longrightarrow>
                    dueKey parseDate (filteredTasks parseDate now statusFilter tasks ! j) \<le> 0)
                \<and> (dueDate (filteredTasks parseDate now statusFilter tasks ! j) = None \<longrightarrow>
                    0 \<le> dueKey parseDate (filteredTasks parseDate now statusFilter tasks ! i)))
       \<and> (\<forall>c d. filter (\<lambda>t. completed t = c \<and> dueKey parseDate t = d)
                   (filteredTasks parseDate now statusFilter tasks) =
                 filter (\<lambda>t. completed t = c \<and> dueKey parseDate t = d)
                   (filter (statusMatches parseDate now statusFilter) tasks))"
proof -
  let ?xs = "filter (statusMatches parseDate now statusFilter) tasks"
  let ?key = "sortKey parseDate"
  let ?ys = "sort_key ?key ?xs"
  have "\<forall>y \<in> set ?xs. dueTime parseDate y = Some (dueKey parseDate y)"
    using assms by (auto intro!: dueTime_valid)
  then have eq: "filteredTasks parseDate now statusFilter tasks = ?ys"
    unfolding filteredTasks_def by (rule arraySort_sort_key)
  have perm: "mset ?ys = mset ?xs"
    by simp
  have "sorted (map ?key ?ys)"
    by (rule sorted_sort_key)
  then have "sorted_wrt (\<lambda>a b. ?key a \<le> ?key b) ?ys"
    by (simp add: sorted_map)
  then have ordered: "sorted_wrt (\<lambda>a b. (completed a \<longrightarrow> completed b) \<and>
                     (completed a = completed b \<longrightarrow> dueKey parseDate b \<le> dueKey parseDate a)) ?ys"
    by (rule sorted_wrt_mono_rel [rotated]) (auto simp: sortKey_def less_eq_prod_def)
  have stable: "filter (\<lambda>t. completed t = c \<and> dueKey parseDate t = d) ?ys =
                 filter (\<lambda>t. completed t = c \<and> dueKey parseDate t = d) ?xs" for c d
  proof -
    have "(\<lambda>t. completed t = c \<and> dueKey parseDate t = d) = (\<lambda>t. ?key t = (c, - d))"
      by (auto simp: sortKey_def fun_eq_iff)
    then show ?thesis
      by (simp only: sort_key_stable)
  qed
  have keys: "\<forall>t. dueDate t = None \<or> dueDate t = Some [] \<longrightarrow> dueKey parseDate t = 0"
    "\<forall>t s ms. dueDate t = Some s \<and> s \<noteq> [] \<and> parseDate s = Some ms \<longrightarrow> dueKey parseDate t = ms"
    using dueKey_cases [where parseDate = parseDate] by blast+
  have place: "(dueDate (?ys ! i) = None \<longrightarrow> dueKey parseDate (?ys ! j) \<le> 0)
             \<and> (dueDate (?ys ! j) = None \<longrightarrow> 0 \<le> dueKey parseDate (?ys ! i))"
    if "i < j \<and> j < length ?ys \<and> completed (?ys ! i) = completed (?ys ! j)" for i j
  proof -
    from that ordered
    have "dueKey parseDate (?ys ! j) \<le> dueKey parseDate (?ys ! i)"
      by (simp add: sorted_wrt_iff_nth_less)
    with keys(1) show ?thesis by auto
  qed
  from perm ordered keys place stable show ?thesis
    unfolding eq by blast
qed

theorem sort_projection_witness:
  "filteredTasks sampleParse 1714600000000 FilterAll
       [taskC, otherTask, taskA, taskEmpty, taskB, taskA2] =
     [taskB, taskA, taskA2, otherTask, taskEmpty, taskC]
   \<and> sorted_wrt (\<lambda>a b. (\<not> completed a \<or> completed b) \<and>
                     (completed a \<noteq> completed b \<or> dueKey sampleParse b \<le> dueKey sampleParse a))
        [taskB, taskA, taskA2, otherTask, taskEmpty, taskC]
   \<and> dueKey sampleParse taskEmpty = 0
   \<and> filter (\<lambda>t. completed t = False \<and> dueKey sampleParse t = 1714557600000)
        [taskB, taskA, taskA2, otherTask, taskEmpty, taskC] = [taskA, taskA2]"
proof -
  have h: "\<forall>t \<in> set [taskC, otherTask, taskA, taskEmpty, taskB, taskA2].
             \<forall>s. dueDate t = Some s \<and> s \<noteq> [] \<longrightarrow> sampleParse s \<noteq> None"
    by (simp add: taskA_def taskA2_def taskB_def taskC_def taskEmpty_def otherTask_def
        sampleTask_def sampleParse_def)
  have r: "filteredTasks sampleParse 1714600000000 FilterAll
       [taskC, otherTask, taskA, taskEmpty, taskB, taskA2] =
     [taskB, taskA, taskA2, otherTask, taskEmpty, taskC]"
    by (simp add: filteredTasks_def statusMatches_def arraySort_def sortCompare_def
        compareTasks_def dueTime_def taskA_def taskA2_def taskB_def taskC_def taskEmpty_def
        otherTask_def sampleTask_def sampleParse_def)
  show ?thesis
    using sort_projection [OF h, of 1714600000000 FilterAll] unfolding r
    by (simp add: statusMatches_def dueKey_def dueTime_def nullish_def taskA_def taskA2_def
        taskB_def taskC_def taskEmpty_def otherTask_def sampleTask_def sampleParse_def)
qed

text \<open>
  The claim as it was stated fails: a task without a due date does not come
  last in its group when another task of the group is due before the epoch.
  Both sample tasks are incomplete and the one without a due date comes first.
\<close>

theorem missing_due_date_not_last_counterexample:
  "completed otherTask = completed taskEarly
   \<and> dueDate otherTask = None
   \<and> dueDate taskEarly = Some ''1969-12-31T00:00:00.000Z''
   \<and> earlyParse ''1969-12-31T00:00:00.000Z'' = Some (- 86400000)
   \<and> filteredTasks earlyParse 0 FilterAll [taskEarly, otherTask] = [otherTask, taskEarly]"
  by (simp add: filteredTasks_def statusMatches_def arraySort_def sortCompare_def
      compareTasks_def dueTime_def taskEarly_def otherTask_def sampleTask_def earlyParse_def)


section \<open>Printing and parsing JSON\<close>

subsection \<open>Whitespace\<close>

lemma skipWhitespace_Cons:
  "skipWhitespace (c # s) = (if isWhitespace c then skipWhitespace s else c # s)"
  by (simp add: skipWhitespace_def)

lemma skipWhitespace_append:
  "\<forall>c \<in> set ws. isWhitespace c \<Longrightarrow> skipWhitespace (ws @ s) = skipWhitespace s"
  by (induction ws) (simp_all add: skipWhitespace_def)

lemma isWhitespace_simps [simp]:
  "isWhitespace newline" "isWhitespace CHR '' ''"
  "\<not> isWhitespace dquote" "\<not> isWhitespace CHR ''[''" "\<not> isWhitespace CHR '']''"
  "\<not> isWhitespace CHR ''{''" "\<not> isWhitespace CHR ''}''" "\<not> isWhitespace CHR '',''"
  "\<not> isWhitespace CHR '':''" "\<not> isWhitespace CHR ''n''" "\<not> isWhitespace CHR ''t''"
  "\<not> isWhitespace CHR ''f''" "\<not> isWhitespace CHR ''-''"
  by (simp_all add: isWhitespace_def)

subsection \<open>Strings\<close>

lemma hexValue_hexDigit: "d < 16 \<Longrightarrow> hexValue (hexDigit d) = Some d"
  by (auto simp: hexValue_def hexDigit_def Let_def)

lemma hex4_low:
  assumes "n < 256"
  shows "hex4 CHR ''0'' CHR ''0'' (hexDigit (n div 16)) (hexDigit (n mod 16)) = Some n"
proof -
  have "n div 16 < 16" using assms by simp
  moreover have "n mod 16 < 16" by simp
  moreover have "hexValue CHR ''0'' = Some 0" by (simp add: hexValue_def)
  ultimately show ?thesis
    by (simp add: hex4_def hexValue_hexDigit)
qed

lemma parseChars_escapeChar:
  assumes "parseChars (e # tail) = Some (s, rest)"
  shows "parseChars (escapeChar c @ e # tail) = Some (c # s, rest)"
proof -
  consider (b) "c = CHR 0x08" | (t) "c = CHR 0x09" | (n) "c = CHR 0x0A" | (f) "c = CHR 0x0C"
    | (r) "c = CHR 0x0D" | (q) "c = dquote" | (bs) "c = backslash"
    | (ctl) "c \<notin> {CHR 0x08, CHR 0x09, CHR 0x0A, CHR 0x0C, CHR 0x0D, dquote, backslash}"
        "(of_char c :: nat) < 32"
    | (plain) "c \<notin> {CHR 0x08, CHR 0x09, CHR 0x0A, CHR 0x0C, CHR 0x0D, dquote, backslash}"
        "\<not> (of_char c :: nat) < 32"
    by blast
  then show ?thesis
  proof cases
    case ctl
    have "(of_char c :: nat) < 256" using ctl(2) by simp
    from hex4_low [OF this] ctl assms show ?thesis
      by (simp add: escapeChar_def consChar_def)
  next
    case plain
    with assms show ?thesis
      by (simp add: escapeChar_def consChar_def)
  qed (use assms in \<open>simp_all add: escapeChar_def unescape_def consChar_def\<close>)
qed

lemma parseChars_quoted:
  "parseChars (concat (map escapeChar s) @ dquote # rest) = Some (s, rest)"
proof (induction s)
  case Nil
  show ?case by (cases rest) simp_all
next
  case (Cons c s)
  obtain e tail where tail: "concat (map escapeChar s) @ dquote # rest = e # tail"
    by (cases "concat (map escapeChar s) @ dquote # rest") simp_all
  from Cons.IH have "parseChars (e # tail) = Some (s, rest)"
    by (simp only: tail)
  from parseChars_escapeChar [OF this, of c] show ?case
    by (simp add: tail [symmetric])
qed

lemma quoteJSONString_parse:
  "quoteJSONString s @ rest = dquote # concat (map escapeChar s) @ dquote # rest"
  by (simp add: quoteJSONString_def)

subsection \<open>Numbers\<close>

lemma isDigit_digitChar: "d < 10 \<Longrightarrow> isDigit (digitChar d)"
  by (simp add: isDigit_def digitChar_def)

lemma digit_value_digitChar: "d < 10 \<Longrightarrow> (of_char (digitChar d) :: nat) - 48 = d"
  by (simp add: digitChar_def)

lemma showNat_digits: "\<forall>c \<in> set (showNat n). isDigit c"
proof (induction n rule: showNat.induct)
  case (1 n)
  then show ?case
    by (subst showNat.simps) (auto simp: isDigit_digitChar)
qed

lemma showNat_not_Nil: "showNat n \<noteq> []"
  by (subst showNat.simps) simp

lemma digitsValue_snoc:
  "digitsValue (ds @ [c]) = 10 * digitsValue ds + (of_char c - 48)"
  by (simp add: digitsValue_def)

lemma digitsValue_showNat: "digitsValue (showNat n) = n"
proof (induction n rule: showNat.induct)
  case (1 n)
  show ?case
  proof (cases "n < 10")
    case True
    then show ?thesis
      by (subst showNat.simps) (simp add: digitsValue_def digit_value_digitChar)
  next
    case False
    with 1 have "digitsValue (showNat (n div 10)) = n div 10" by simp
    with False show ?thesis
      by (subst showNat.simps) (simp add: digitsValue_snoc digit_value_digitChar)
  qed
qed

lemma hd_showNat_zero:
  "hd (showNat n) = CHR ''0'' \<Longrightarrow> length (showNat n) = 1"
proof (induction n rule: showNat.induct)
  case (1 n)
  show ?case
  proof (cases "n < 10")
    case True
    then show ?thesis by (subst showNat.simps) simp
  next
    case False
    then have eq: "showNat n = showNat (n div 10) @ [digitChar (n mod 10)]"
      by (subst showNat.simps) simp
    with "1.prems" have hd0: "hd (showNat (n div 10)) = CHR ''0''"
      by (simp add: showNat_not_Nil)
    with 1 False have "length (showNat (n div 10)) = 1" by simp
    then have one: "showNat (n div 10) = [CHR ''0'']"
      using hd0 by (cases "showNat (n div 10)") simp_all
    have "digitsValue (showNat (n div 10)) = n div 10"
      by (rule digitsValue_showNat)
    with one have "n div 10 = 0" by (simp add: digitsValue_def)
    with False show ?thesis by simp
  qed
qed

lemma takeWhile_digits:
  assumes "\<forall>c \<in> set ds. isDigit c" and "numberEnd rest"
  shows "takeWhile isDigit (ds @ rest) = ds" and "dropWhile isDigit (ds @ rest) = rest"
proof -
  from assms(2) have "takeWhile isDigit rest = []" "dropWhile isDigit rest = rest"
    by (cases rest; simp add: numberEnd_def)+
  with assms(1) show "takeWhile isDigit (ds @ rest) = ds" "dropWhile isDigit (ds @ rest) = rest"
    by (simp_all add: takeWhile_append2 dropWhile_append2)
qed

lemma isDigit_not_minus: "isDigit c \<Longrightarrow> c \<noteq> CHR ''-''"
  by (auto simp: isDigit_def)

lemma parseNumber_digits:
  assumes "\<forall>c \<in> set ds. isDigit c" and "ds \<noteq> []"
    and "\<not> (length ds > 1 \<and> hd ds = CHR ''0'')" and "numberEnd rest"
  shows "parseNumber (ds @ rest) = Some (JNumber (int (digitsValue ds)), rest)"
    and "parseNumber (CHR ''-'' # ds @ rest) = Some (JNumber (- int (digitsValue ds)), rest)"
proof -
  note tw = takeWhile_digits [OF assms(1,4)]
  have rest: "\<not> (rest \<noteq> [] \<and> hd rest \<in> set ''.eE'')"
    using assms(4) by (auto simp: numberEnd_def)
  have "isDigit (hd ds)"
    using assms(1,2) by (cases ds) simp_all
  then have "hd (ds @ rest) \<noteq> CHR ''-''"
    using assms(2) by (simp add: isDigit_not_minus)
  then have neg: "\<not> (ds @ rest \<noteq> [] \<and> hd (ds @ rest) = CHR ''-'')"
    by simp
  show "parseNumber (ds @ rest) = Some (JNumber (int (digitsValue ds)), rest)"
    unfolding parseNumber_def Let_def
    by (simp only: neg if_False tw assms(2,3) rest simp_thms)
  have neg': "CHR ''-'' # ds @ rest \<noteq> [] \<and> hd (CHR ''-'' # ds @ rest) = CHR ''-''"
    by simp
  show "parseNumber (CHR ''-'' # ds @ rest) = Some (JNumber (- int (digitsValue ds)), rest)"
    unfolding parseNumber_def Let_def
    by (simp only: neg' if_True list.sel tw assms(2,3) rest simp_thms if_False)
qed

lemma parseNumber_showInt:
  assumes "numberEnd rest"
  shows "parseNumber (showInt i @ rest) = Some (JNumber i, rest)"
proof (cases "i < 0")
  case True
  have lead: "\<not> (length (showNat (nat (- i))) > 1 \<and> hd (showNat (nat (- i))) = CHR ''0'')"
    using hd_showNat_zero [of "nat (- i)"] by auto
  from parseNumber_digits(2) [OF showNat_digits showNat_not_Nil lead assms] True
  show ?thesis
    by (simp add: showInt_def digitsValue_showNat)
next
  case False
  have lead: "\<not> (length (showNat (nat i)) > 1 \<and> hd (showNat (nat i)) = CHR ''0'')"
    using hd_showNat_zero [of "nat i"] by auto
  from parseNumber_digits(1) [OF showNat_digits showNat_not_Nil lead assms] False
  show ?thesis
    by (simp add: showInt_def digitsValue_showNat)
qed

lemmas parse_Suc = parseValue.simps(2) parseElements.simps(2) parseMembers.simps(2)

declare parse_Suc [simp del]

lemma parseValue_skip:
  "\<forall>c \<in> set ws. isWhitespace c \<Longrightarrow> parseValue fuel (ws @ s) = parseValue fuel s"
  by (cases fuel) (simp_all add: parse_Suc skipWhitespace_append)

lemma parseElements_skip:
  "\<forall>c \<in> set ws. isWhitespace c \<Longrightarrow> parseElements fuel (ws @ s) = parseElements fuel s"
  by (cases fuel) (simp_all add: parse_Suc parseValue_skip)

lemma parseMembers_skip:
  "\<forall>c \<in> set ws. isWhitespace c \<Longrightarrow> parseMembers fuel (ws @ s) = parseMembers fuel s"
  by (cases fuel) (simp_all add: parse_Suc skipWhitespace_append)

lemma parseValue_literals:
  "parseValue (Suc f) (''null'' @ rest) = Some (JNull, rest)"
  "parseValue (Suc f) (''true'' @ rest) = Some (JBool True, rest)"
  "parseValue (Suc f) (''false'' @ rest) = Some (JBool False, rest)"
  "parseValue (Suc f) (''[]'' @ rest) = Some (JArray [], rest)"
  "parseValue (Suc f) (''{}'' @ rest) = Some (JObject [], rest)"
  by (simp_all add: parse_Suc skipWhitespace_Cons)

lemma parseValue_string:
  "parseValue (Suc f) (dquote # s) = map_option (\<lambda>(str, rest). (JString str, rest)) (parseChars s)"
  by (simp add: parse_Suc skipWhitespace_Cons)

lemma parseValue_array:
  assumes "skipWhitespace r = c # r'" and "c \<noteq> CHR '']''"
  shows "parseValue (Suc f) (CHR ''['' # r) =
           map_option (\<lambda>(vs, rest). (JArray vs, rest)) (parseElements f r)"
  using assms by (simp add: parse_Suc skipWhitespace_Cons)

lemma parseValue_object:
  assumes "skipWhitespace r = c # r'" and "c \<noteq> CHR ''}''"
  shows "parseValue (Suc f) (CHR ''{'' # r) =
           map_option (\<lambda>(ps, rest). (JObject ps, rest)) (parseMembers f r)"
  using assms by (simp add: parse_Suc skipWhitespace_Cons)

lemma parseElements_more:
  assumes "parseValue f s = Some (v, r)" and "skipWhitespace r = CHR '','' # r'"
  shows "parseElements (Suc f) s = map_option (\<lambda>(vs, rest). (v # vs, rest)) (parseElements f r')"
  using assms by (simp add: parse_Suc)

lemma parseElements_last:
  assumes "parseValue f s = Some (v, r)" and "skipWhitespace r = CHR '']'' # r'"
  shows "parseElements (Suc f) s = Some ([v], r')"
  using assms by (simp add: parse_Suc)

lemma parseMembers_more:
  assumes "parseChars s = Some (k, r1)" and "skipWhitespace r1 = CHR '':'' # r2"
    and "parseValue f r2 = Some (v, r3)" and "skipWhitespace r3 = CHR '','' # r4"
  shows "parseMembers (Suc f) (dquote # s) =
           map_option (\<lambda>(ps, rest). ((k, v) # ps, rest)) (parseMembers f r4)"
  using assms by (simp add: parse_Suc skipWhitespace_Cons)

lemma parseMembers_last:
  assumes "parseChars s = Some (k, r1)" and "skipWhitespace r1 = CHR '':'' # r2"
    and "parseValue f r2 = Some (v, r3)" and "skipWhitespace r3 = CHR ''}'' # r4"
  shows "parseMembers (Suc f) (dquote # s) = Some ([(k, v)], r4)"
  using assms by (simp add: parse_Suc skipWhitespace_Cons)

lemma isDigit_start:
  assumes "isDigit c"
  shows "\<not> isWhitespace c" "c \<noteq> CHR ''[''" "c \<noteq> CHR '']''" "c \<noteq> CHR ''{''" "c \<noteq> dquote"
    "c \<noteq> CHR ''n''" "c \<noteq> CHR ''t''" "c \<noteq> CHR ''f''"
  using assms by (auto simp: isDigit_def isWhitespace_def)

lemma showInt_start:
  obtains c cs where "showInt i = c # cs" "c = CHR ''-'' \<or> isDigit c"
proof (cases "i < 0")
  case True
  then have "showInt i = CHR ''-'' # showNat (nat (- i))" by (simp add: showInt_def)
  then show ?thesis using that by blast
next
  case False
  obtain c cs where cs: "showNat (nat i) = c # cs"
    using showNat_not_Nil [of "nat i"] by (cases "showNat (nat i)") auto
  with showNat_digits [of "nat i"] have "isDigit c" by simp
  with cs False show ?thesis using that by (simp add: showInt_def)
qed

lemma parseValue_number:
  assumes "numberEnd rest"
  shows "parseValue (Suc fuel) (showInt i @ rest) = Some (JNumber i, rest)"
proof -
  obtain c cs where c: "showInt i = c # cs" "c = CHR ''-'' \<or> isDigit c"
    by (rule showInt_start)
  from c(2) have "\<not> isWhitespace c" "c \<noteq> CHR ''[''" "c \<noteq> CHR ''{''" "c \<noteq> dquote"
    "c \<noteq> CHR ''n''" "c \<noteq> CHR ''t''" "c \<noteq> CHR ''f''"
    using isDigit_start [of c] by auto
  then have "parseValue (Suc fuel) (c # cs @ rest) = parseNumber (c # cs @ rest)"
    by (simp add: parse_Suc skipWhitespace_Cons)
  with parseNumber_showInt [OF assms, of i] show ?thesis
    by (simp add: c(1))
qed

lemma stringifyIndent_start:
  "\<exists>c cs. stringifyIndent ind v = c # cs \<and> \<not> isWhitespace c \<and> c \<noteq> CHR '']''"
proof (cases v)
  case (JNumber i)
  obtain c cs where c: "showInt i = c # cs" "c = CHR ''-'' \<or> isDigit c"
    by (rule showInt_start)
  from c(2) have "\<not> isWhitespace c \<and> c \<noteq> CHR '']''"
    using isDigit_start [of c] by auto
  with c(1) JNumber show ?thesis by simp
qed (auto simp: quoteJSONString_def isWhitespace_def)

lemma stringifyElements_start:
  assumes "elems \<noteq> []"
  shows "\<exists>c cs. stringifyElements ind elems = c # cs \<and> \<not> isWhitespace c \<and> c \<noteq> CHR '']''"
proof -
  from assms obtain v vs where elems: "elems = v # vs" by (cases elems) auto
  obtain c cs where "stringifyIndent ind v = c # cs" "\<not> isWhitespace c" "c \<noteq> CHR '']''"
    using stringifyIndent_start by blast
  then show ?thesis
    unfolding elems by (cases vs) simp_all
qed

lemma stringifyMembers_start:
  assumes "props \<noteq> []"
  shows "\<exists>cs. stringifyMembers ind props = dquote # cs"
proof -
  from assms obtain k v ps where "props = (k, v) # ps" by (cases props) auto
  then show ?thesis
    by (cases ps) (simp_all add: quoteJSONString_def)
qed

lemma numberEnd_simps [simp]:
  "numberEnd []" "numberEnd (newline # s)" "numberEnd (CHR '','' # s)"
  by (simp_all add: numberEnd_def isDigit_def)

lemma newline_indent_whitespace:
  assumes "\<forall>c \<in> set ind. c = CHR '' ''"
  shows "\<forall>c \<in> set (newline # ind). isWhitespace c"
proof
  fix c
  assume "c \<in> set (newline # ind)"
  then have "c = newline \<or> c \<in> set ind" by simp
  with assms have "c = newline \<or> c = CHR '' ''" by blast
  then show "isWhitespace c" by (rule disjE) simp_all
qed

lemma indent_step:
  assumes "\<forall>c \<in> set ind. c = CHR '' ''"
  shows "\<forall>c \<in> set (ind @ ''  ''). c = CHR '' ''"
proof
  fix c
  assume "c \<in> set (ind @ ''  '')"
  then have "c \<in> set ind \<or> c \<in> set ''  ''"
    by (simp only: set_append Un_iff)
  then show "c = CHR '' ''"
  proof
    assume "c \<in> set ind"
    with assms show ?thesis by blast
  next
    assume "c \<in> set ''  ''"
    then show ?thesis by simp
  qed
qed

lemma skip_indent:
  assumes "\<forall>c \<in> set ind. c = CHR '' ''" and "\<not> isWhitespace c"
  shows "skipWhitespace (newline # ind @ c # s) = c # s"
proof -
  have "skipWhitespace ((newline # ind) @ c # s) = skipWhitespace (c # s)"
    by (rule skipWhitespace_append) (rule newline_indent_whitespace [OF assms(1)])
  with assms(2) show ?thesis by (simp add: skipWhitespace_Cons)
qed

lemma parse_stringify:
  "(\<forall>c \<in> set ind. c = CHR '' '') \<longrightarrow>
     (\<forall>fuel rest. fuelOf v \<le> fuel \<longrightarrow> numberEnd rest \<longrightarrow>
        parseValue fuel (stringifyIndent ind v @ rest) = Some (v, rest))"
  "(\<forall>c \<in> set ind. c = CHR '' '') \<longrightarrow> elems \<noteq> [] \<longrightarrow>
     (\<forall>fuel outer rest. fuelOfElements elems \<le> fuel \<longrightarrow> (\<forall>c \<in> set outer. c = CHR '' '') \<longrightarrow>
        parseElements fuel (stringifyElements ind elems @ newline # outer @ CHR '']'' # rest) =
          Some (elems, rest))"
  "(\<forall>c \<in> set ind. c = CHR '' '') \<longrightarrow> props \<noteq> [] \<longrightarrow>
     (\<forall>fuel outer rest. fuelOfMembers props \<le> fuel \<longrightarrow> (\<forall>c \<in> set outer. c = CHR '' '') \<longrightarrow>
        parseMembers fuel (stringifyMembers ind props @ newline # outer @ CHR ''}'' # rest) =
          Some (props, rest))"
proof (induction ind v and ind elems and ind props
    rule: stringifyIndent_stringifyElements_stringifyMembers.induct)
  case (1 ind)
  show ?case
  proof (intro impI allI)
    fix fuel rest
    assume "fuelOf JNull \<le> fuel"
    then obtain f where "fuel = Suc f" by (cases fuel) auto
    then show "parseValue fuel (stringifyIndent ind JNull @ rest) = Some (JNull, rest)"
      using parseValue_literals(1) by simp
  qed
next
  case (2 ind b)
  show ?case
  proof (intro impI allI)
    fix fuel rest
    assume "fuelOf (JBool b) \<le> fuel"
    then obtain f where "fuel = Suc f" by (cases fuel) auto
    then show "parseValue fuel (stringifyIndent ind (JBool b) @ rest) = Some (JBool b, rest)"
      using parseValue_literals(2,3) by simp
  qed
next
  case (3 ind i)
  show ?case
  proof (intro impI allI)
    fix fuel rest
    assume "fuelOf (JNumber i) \<le> fuel" and "numberEnd rest"
    then obtain f where "fuel = Suc f" by (cases fuel) auto
    with \<open>numberEnd rest\<close>
    show "parseValue fuel (stringifyIndent ind (JNumber i) @ rest) = Some (JNumber i, rest)"
      by (simp add: parseValue_number)
  qed
next
  case (4 ind s)
  show ?case
  proof (intro impI allI)
    fix fuel rest
    assume "fuelOf (JString s) \<le> fuel"
    then obtain f where "fuel = Suc f" by (cases fuel) auto
    then show "parseValue fuel (stringifyIndent ind (JString s) @ rest) = Some (JString s, rest)"
      by (simp add: quoteJSONString_def parseValue_string parseChars_quoted)
  qed
next
  case (5 ind elems)
  show ?case
  proof (intro impI allI)
    fix fuel rest
    assume ind: "\<forall>c \<in> set ind. c = CHR '' ''" and fuel: "fuelOf (JArray elems) \<le> fuel"
    from fuel obtain f where f: "fuel = Suc f" "fuelOfElements elems \<le> f"
      by (cases fuel) auto
    show "parseValue fuel (stringifyIndent ind (JArray elems) @ rest) = Some (JArray elems, rest)"
    proof (cases "elems = []")
      case True
      then show ?thesis using parseValue_literals(4) by (simp add: f)
    next
      case False
      let ?ind = "ind @ ''  ''"
      let ?tail = "newline # ind @ CHR '']'' # rest"
      let ?body = "stringifyElements ?ind elems @ ?tail"
      have ind': "\<forall>c \<in> set ?ind. c = CHR '' ''" by (rule indent_step [OF ind])
      obtain c cs where c: "stringifyElements ?ind elems = c # cs" "\<not> isWhitespace c" "c \<noteq> CHR '']''"
        using stringifyElements_start [OF False] by blast
      have shape: "stringifyIndent ind (JArray elems) @ rest = CHR ''['' # newline # ?ind @ ?body"
        using False by simp
      have skip: "skipWhitespace (newline # ?ind @ ?body) = c # cs @ ?tail"
        using skip_indent [OF ind' c(2), of "cs @ ?tail"] by (simp only: c(1) append_Cons)
      have "parseElements f ((newline # ?ind) @ ?body) = parseElements f ?body"
        by (rule parseElements_skip) (rule newline_indent_whitespace [OF ind'])
      also have "\<dots> = Some (elems, rest)"
        using 5 False ind' f(2) ind by blast
      finally have elems: "parseElements f (newline # ?ind @ ?body) = Some (elems, rest)"
        by (simp only: append_Cons)
      show ?thesis
        unfolding shape f(1) parseValue_array [OF skip c(3)] elems by simp
    qed
  qed
next
  case (6 ind props)
  show ?case
  proof (intro impI allI)
    fix fuel rest
    assume ind: "\<forall>c \<in> set ind. c = CHR '' ''" and fuel: "fuelOf (JObject props) \<le> fuel"
    from fuel obtain f where f: "fuel = Suc f" "fuelOfMembers props \<le> f"
      by (cases fuel) auto
    show "parseValue fuel (stringifyIndent ind (JObject props) @ rest) = Some (JObject props, rest)"
    proof (cases "props = []")
      case True
      then show ?thesis using parseValue_literals(5) by (simp add: f)
    next
      case False
      let ?ind = "ind @ ''  ''"
      let ?tail = "newline # ind @ CHR ''}'' # rest"
      let ?body = "stringifyMembers ?ind props @ ?tail"
      have ind': "\<forall>c \<in> set ?ind. c = CHR '' ''" by (rule indent_step [OF ind])
      obtain cs where c: "stringifyMembers ?ind props = dquote # cs"
        using stringifyMembers_start [OF False] by blast
      have shape: "stringifyIndent ind (JObject props) @ rest = CHR ''{'' # newline # ?ind @ ?body"
        using False by simp
      have "\<not> isWhitespace dquote" by simp
      from skip_indent [OF ind' this, of "cs @ ?tail"]
      have skip: "skipWhitespace (newline # ?ind @ ?body) = dquote # cs @ ?tail"
        by (simp only: c append_Cons)
      have "parseMembers f ((newline # ?ind) @ ?body) = parseMembers f ?body"
        by (rule parseMembers_skip) (rule newline_indent_whitespace [OF ind'])
      also have "\<dots> = Some (props, rest)"
        using 6 False ind' f(2) ind by blast
      finally have props: "parseMembers f (newline # ?ind @ ?body) = Some (props, rest)"
        by (simp only: append_Cons)
      have ne: "dquote \<noteq> CHR ''}''" by simp
      show ?thesis
        unfolding shape f(1) parseValue_object [OF skip ne] props by simp
    qed
  qed
next
  case (7 ind)
  show ?case by simp
next
  case (8 ind v)
  show ?case
  proof (intro impI allI)
    fix fuel outer rest
    assume ind: "\<forall>c \<in> set ind. c = CHR '' ''" and outer: "\<forall>c \<in> set outer. c = CHR '' ''"
      and fuel: "fuelOfElements [v] \<le> fuel"
    from fuel obtain f where f: "fuel = Suc f" "fuelOf v \<le> f"
      by (cases fuel) auto
    let ?tail = "newline # outer @ CHR '']'' # rest"
    have val: "parseValue f (stringifyIndent ind v @ ?tail) = Some (v, ?tail)"
      using 8 ind f(2) by simp
    have skip: "skipWhitespace ?tail = CHR '']'' # rest"
      using skip_indent [OF outer, of "CHR '']''" rest] by simp
    show "parseElements fuel (stringifyElements ind [v] @ newline # outer @ CHR '']'' # rest) =
        Some ([v], rest)"
      unfolding f(1) using parseElements_last [OF val skip] by simp
  qed
next
  case (9 ind v w vs)
  show ?case
  proof (intro impI allI)
    fix fuel outer rest
    assume ind: "\<forall>c \<in> set ind. c = CHR '' ''" and outer: "\<forall>c \<in> set outer. c = CHR '' ''"
      and fuel: "fuelOfElements (v # w # vs) \<le> fuel"
    from fuel obtain f where f: "fuel = Suc f" "fuelOf v \<le> f" "fuelOfElements (w # vs) \<le> f"
      by (cases fuel) auto
    let ?tail = "newline # outer @ CHR '']'' # rest"
    let ?more = "stringifyElements ind (w # vs) @ ?tail"
    let ?after = "CHR '','' # newline # ind @ ?more"
    have val: "parseValue f (stringifyIndent ind v @ ?after) = Some (v, ?after)"
      using 9(1) ind f(2) by simp
    have skip: "skipWhitespace ?after = CHR '','' # newline # ind @ ?more"
      by (simp add: skipWhitespace_Cons)
    have "parseElements f ((newline # ind) @ ?more) = parseElements f ?more"
      by (rule parseElements_skip) (rule newline_indent_whitespace [OF ind])
    moreover have "parseElements f ?more = Some (w # vs, rest)"
      using 9(2) ind outer f(3) by blast
    ultimately have more: "parseElements f (newline # ind @ ?more) = Some (w # vs, rest)"
      by (simp only: append_Cons)
    have shape: "stringifyElements ind (v # w # vs) @ ?tail = stringifyIndent ind v @ ?after"
      by simp
    show "parseElements fuel (stringifyElements ind (v # w # vs) @ newline # outer @ CHR '']'' # rest) =
        Some (v # w # vs, rest)"
      unfolding f(1) shape parseElements_more [OF val skip] more by simp
  qed
next
  case (10 ind)
  show ?case by simp
next
  case (11 ind k v)
  show ?case
  proof (intro impI allI)
    fix fuel outer rest
    assume ind: "\<forall>c \<in> set ind. c = CHR '' ''" and outer: "\<forall>c \<in> set outer. c = CHR '' ''"
      and fuel: "fuelOfMembers [(k, v)] \<le> fuel"
    from fuel obtain f where f: "fuel = Suc f" "fuelOf v \<le> f"
      by (cases fuel) auto
    let ?tail = "newline # outer @ CHR ''}'' # rest"
    let ?val = "stringifyIndent ind v @ ?tail"
    have "parseValue f ([CHR '' ''] @ ?val) = parseValue f ?val"
      by (rule parseValue_skip) simp
    moreover have "parseValue f ?val = Some (v, ?tail)"
      using 11 ind f(2) by simp
    ultimately have val: "parseValue f (CHR '' '' # ?val) = Some (v, ?tail)"
      by simp
    have skip: "skipWhitespace ?tail = CHR ''}'' # rest"
      using skip_indent [OF outer, of "CHR ''}''" rest] by simp
    have key: "parseChars (concat (map escapeChar k) @ dquote # CHR '':'' # CHR '' '' # ?val) =
        Some (k, CHR '':'' # CHR '' '' # ?val)"
      by (rule parseChars_quoted)
    have colon: "skipWhitespace (CHR '':'' # CHR '' '' # ?val) = CHR '':'' # CHR '' '' # ?val"
      by (simp add: skipWhitespace_Cons)
    have shape: "stringifyMembers ind [(k, v)] @ ?tail =
        dquote # concat (map escapeChar k) @ dquote # CHR '':'' # CHR '' '' # ?val"
      by (simp add: quoteJSONString_def)
    show "parseMembers fuel (stringifyMembers ind [(k, v)] @ newline # outer @ CHR ''}'' # rest) =
        Some ([(k, v)], rest)"
      unfolding f(1) shape by (rule parseMembers_last [OF key colon val skip])
  qed
next
  case (12 ind k v p ps)
  show ?case
  proof (intro impI allI)
    fix fuel outer rest
    assume ind: "\<forall>c \<in> set ind. c = CHR '' ''" and outer: "\<forall>c \<in> set outer. c = CHR '' ''"
      and fuel: "fuelOfMembers ((k, v) # p # ps) \<le> fuel"
    from fuel obtain f where f: "fuel = Suc f" "fuelOf v \<le> f" "fuelOfMembers (p # ps) \<le> f"
      by (cases fuel) auto
    let ?tail = "newline # outer @ CHR ''}'' # rest"
    let ?more = "stringifyMembers ind (p # ps) @ ?tail"
    let ?after = "CHR '','' # newline # ind @ ?more"
    let ?val = "stringifyIndent ind v @ ?after"
    have "parseValue f ([CHR '' ''] @ ?val) = parseValue f ?val"
      by (rule parseValue_skip) simp
    moreover have "parseValue f ?val = Some (v, ?after)"
      using 12(1) ind f(2) by simp
    ultimately have val: "parseValue f (CHR '' '' # ?val) = Some (v, ?after)"
      by simp
    have skip: "skipWhitespace ?after = CHR '','' # newline # ind @ ?more"
      by (simp add: skipWhitespace_Cons)
    have "parseMembers f ((newline # ind) @ ?more) = parseMembers f ?more"
      by (rule parseMembers_skip) (rule newline_indent_whitespace [OF ind])
    moreover have "parseMembers f ?more = Some (p # ps, rest)"
      using 12(2) ind outer f(3) by blast
    ultimately have more: "parseMembers f (newline # ind @ ?more) = Some (p # ps, rest)"
      by (simp only: append_Cons)
    have key: "parseChars (concat (map escapeChar k) @ dquote # CHR '':'' # CHR '' '' # ?val) =
        Some (k, CHR '':'' # CHR '' '' # ?val)"
      by (rule parseChars_quoted)
    have colon: "skipWhitespace (CHR '':'' # CHR '' '' # ?val) = CHR '':'' # CHR '' '' # ?val"
      by (simp add: skipWhitespace_Cons)
    have shape: "stringifyMembers ind ((k, v) # p # ps) @ ?tail =
        dquote # concat (map escapeChar k) @ dquote # CHR '':'' # CHR '' '' # ?val"
      by (simp add: quoteJSONString_def)
    show "parseMembers fuel (stringifyMembers ind ((k, v) # p # ps) @ newline # outer @ CHR ''}'' # rest) =
        Some ((k, v) # p # ps, rest)"
      unfolding f(1) shape parseMembers_more [OF key colon val skip] more by simp
  qed
qed

lemma showInt_not_Nil: "showInt i \<noteq> []"
  by (simp add: showInt_def showNat_not_Nil)

lemma fuel_bound:
  "fuelOf v \<le> length (stringifyIndent ind v)"
  "fuelOfElements elems \<le> Suc (length (stringifyElements ind elems))"
  "fuelOfMembers props \<le> Suc (length (stringifyMembers ind props))"
proof (induction ind v and ind elems and ind props
    rule: stringifyIndent_stringifyElements_stringifyMembers.induct)
  case (3 ind i)
  then show ?case
    using showInt_not_Nil [of i] by (cases "showInt i") simp_all
next
  case (4 ind s)
  then show ?case by (simp add: quoteJSONString_def)
next
  case (5 ind elems)
  then show ?case by (cases "elems = []") simp_all
next
  case (6 ind props)
  then show ?case by (cases "props = []") simp_all
qed simp_all

lemma parseValue_stringifyIndent:
  assumes "\<forall>c \<in> set ind. c = CHR '' ''" and "fuelOf v \<le> fuel" and "numberEnd rest"
  shows "parseValue fuel (stringifyIndent ind v @ rest) = Some (v, rest)"
  using parse_stringify(1) assms by blast

lemma jsonParse_jsonStringify: "jsonParse (jsonStringify v) = Some v"
proof -
  have "fuelOf v \<le> Suc (length (stringifyIndent [] v))"
    using fuel_bound(1) [of v "[]"] by simp
  then have "parseValue (Suc (length (stringifyIndent [] v))) (stringifyIndent [] v @ []) =
      Some (v, [])"
    by (intro parseValue_stringifyIndent) simp_all
  then show ?thesis
    by (simp add: jsonParse_def jsonStringify_def skipWhitespace_def)
qed


section \<open>Import and export\<close>

lemma hasIdAndTitle_iff:
  "hasIdAndTitle v = Inr True \<longleftrightarrow>
   (\<exists>props. v = JObject props \<and> ''id'' \<in> fst ` set props \<and> ''title'' \<in> fst ` set props)"
  by (cases v) (auto simp: hasIdAndTitle_def inOperator_def)

lemma every_iff: "every p xs = Inr True \<longleftrightarrow> (\<forall>x \<in> set xs. p x = Inr True)"
  by (induction xs) (auto split: sum.splits)

lemma tryImport_Inr_iff:
  "tryImport parse text = Inr v \<longleftrightarrow>
   parse text = Some v \<and> (\<exists>elems. v = JArray elems \<and> every hasIdAndTitle elems = Inr True)"
  by (auto simp: tryImport_def split: option.splits json.splits sum.splits)

text \<open>
  Claim C8. For every text and every current collection, the import succeeds
  exactly when the text parses to an array in which every element is an object
  with the keys \<open>id\<close> and \<open>title\<close>; on success the collection is the parsed array,
  and otherwise the error toast is shown and the collection is the one before.
\<close>

theorem import_all_or_nothing:
  "(snd (importTasks parse (Some text) tasks) = ToastImported \<longleftrightarrow>
      (\<exists>elems. parse text = Some (JArray elems) \<and>
         (\<forall>v \<in> set elems. \<exists>props. v = JObject props \<and>
            ''id'' \<in> fst ` set props \<and> ''title'' \<in> fst ` set props)))
   \<and> (snd (importTasks parse (Some text) tasks) = ToastImported \<longrightarrow>
        parse text = Some (fst (importTasks parse (Some text) tasks)))
   \<and> (snd (importTasks parse (Some text) tasks) \<noteq> ToastImported \<longrightarrow>
        snd (importTasks parse (Some text) tasks) = ToastCouldNotImport \<and>
        fst (importTasks parse (Some text) tasks) = tasks)"
proof (cases "tryImport parse text")
  case (Inl e)
  then have "\<not> (\<exists>v. tryImport parse text = Inr v)" by simp
  then have "\<not> (\<exists>elems. parse text = Some (JArray elems) \<and>
         (\<forall>v \<in> set elems. \<exists>props. v = JObject props \<and>
            ''id'' \<in> fst ` set props \<and> ''title'' \<in> fst ` set props))"
    unfolding tryImport_Inr_iff every_iff hasIdAndTitle_iff by blast
  with Inl show ?thesis by (simp add: importTasks_def)
next
  case (Inr v)
  then have "\<exists>elems. parse text = Some (JArray elems) \<and>
         (\<forall>v \<in> set elems. \<exists>props. v = JObject props \<and>
            ''id'' \<in> fst ` set props \<and> ''title'' \<in> fst ` set props)"
    unfolding tryImport_Inr_iff every_iff hasIdAndTitle_iff by blast
  moreover from Inr have "parse text = Some v"
    by (simp add: tryImport_Inr_iff)
  ultimately show ?thesis using Inr by (simp add: importTasks_def)
qed

theorem import_all_or_nothing_witness:
  "importTasks jsonParse (Some (jsonStringify sampleImport)) (JArray []) =
     (sampleImport, ToastImported)
   \<and> importTasks jsonParse (Some ''[1]'') sampleImport = (sampleImport, ToastCouldNotImport)
   \<and> importTasks jsonParse (Some ''{oops'') sampleImport = (sampleImport, ToastCouldNotImport)"
proof -
  let ?r = "importTasks jsonParse (Some (jsonStringify sampleImport)) (JArray [])"
  have 1: "jsonParse (jsonStringify sampleImport) = Some sampleImport"
    by (rule jsonParse_jsonStringify)
  have "\<exists>elems. jsonParse (jsonStringify sampleImport) = Some (JArray elems) \<and>
         (\<forall>v \<in> set elems. \<exists>props. v = JObject props \<and>
            ''id'' \<in> fst ` set props \<and> ''title'' \<in> fst ` set props)"
    unfolding 1 by (simp add: sampleImport_def)
  with import_all_or_nothing [of jsonParse "jsonStringify sampleImport" "JArray []"]
  have "snd ?r = ToastImported" and "jsonParse (jsonStringify sampleImport) = Some (fst ?r)"
    by blast+
  with 1 have a: "?r = (sampleImport, ToastImported)"
    by (simp add: prod_eq_iff)
  have 2: "jsonParse ''[1]'' = Some (JArray [JNumber 1])"
    by code_simp
  have 3: "jsonParse ''{oops'' = None"
    by code_simp
  have b: "importTasks jsonParse (Some ''[1]'') sampleImport = (sampleImport, ToastCouldNotImport)"
    by (simp add: 2 importTasks_def tryImport_def hasIdAndTitle_def inOperator_def)
  have c: "importTasks jsonParse (Some ''{oops'') sampleImport = (sampleImport, ToastCouldNotImport)"
    by (simp add: 3 importTasks_def tryImport_def)
  from a b c show ?thesis by simp
qed

lemma map_of_optionalProperty:
  "map_of (optionalProperty k' enc x) k = (if k = k' then map_option enc x else None)"
  "map_of (optionalProperty k' enc x @ ps) k =
     (if k = k' then (case x of None \<Rightarrow> map_of ps k | Some v \<Rightarrow> Some (enc v))
      else map_of ps k)"
  by (cases x; simp add: optionalProperty_def)+

lemma property_taskToJson:
  "property (taskToJson t) ''id'' = Some (JString (task_id t))"
  "property (taskToJson t) ''title'' = Some (JString (title t))"
  "property (taskToJson t) ''description'' = map_option JString (description t)"
  "property (taskToJson t) ''type'' = Some (typeToJson (task_type t))"
  "property (taskToJson t) ''dueDate'' = map_option JString (dueDate t)"
  "property (taskToJson t) ''completed'' = Some (JBool (completed t))"
  "property (taskToJson t) ''completedAt'' = map_option JString (completedAt t)"
  "property (taskToJson t) ''subtasks'' = Some (JArray (map subtaskToJson (subtasks t)))"
  "property (taskToJson t) ''isRecurring'' = map_option JBool (isRecurring t)"
  "property (taskToJson t) ''recurringInterval'' = map_option JNumber (recurringInterval t)"
  "property (taskToJson t) ''recurringIntervalUnit'' =
     map_option unitToJson (recurringIntervalUnit t)"
  "property (taskToJson t) ''repetitions'' = map_option JNumber (repetitions t)"
  "property (taskToJson t) ''startTime'' = map_option JString (startTime t)"
  "property (taskToJson t) ''imageUrl'' = map_option JString (imageUrl t)"
  by (simp_all add: taskToJson_def property_def map_of_optionalProperty
      del: map_of_append split: option.split)

lemma optional_map_option:
  assumes "\<And>y. dec (enc y) = Some y"
  shows "optional dec (map_option enc x) = Some x"
  using assms by (cases x) (simp_all add: optional_def)

lemma typeOfJson_typeToJson: "typeOfJson (typeToJson ty) = Some ty"
  by (cases ty) (simp_all add: typeOfJson_def typeToJson_def)

lemma unitOfJson_unitToJson: "unitOfJson (unitToJson u) = Some u"
  by (cases u) (simp_all add: unitOfJson_def unitToJson_def)

lemma subtaskOfJson_subtaskToJson: "subtaskOfJson (subtaskToJson sub) = Some sub"
  by (simp add: subtaskOfJson_def subtaskToJson_def property_def required_def
      stringOfJson_def boolOfJson_def)

lemma those_map_roundtrip:
  assumes "\<And>x. dec (enc x) = Some x"
  shows "those (map dec (map enc xs)) = Some xs"
  by (induction xs) (simp_all add: assms)

lemma subtasksOfJson_roundtrip: "subtasksOfJson (JArray (map subtaskToJson subs)) = Some subs"
  by (simp add: subtasksOfJson_def those_map_roundtrip [of subtaskOfJson subtaskToJson, OF subtaskOfJson_subtaskToJson] del: map_map)

lemma taskOfJson_taskToJson: "taskOfJson (taskToJson t) = Some t"
proof -
  have opt: "optional stringOfJson (map_option JString x) = Some x"
    "optional boolOfJson (map_option JBool b) = Some b"
    "optional numberOfJson (map_option JNumber n) = Some n"
    "optional unitOfJson (map_option unitToJson u) = Some u" for x b n u
    by (rule optional_map_option; simp add: stringOfJson_def boolOfJson_def numberOfJson_def
        unitOfJson_unitToJson)+
  show ?thesis
    by (simp add: taskOfJson_def property_taskToJson required_def opt stringOfJson_def
        boolOfJson_def typeOfJson_typeToJson subtasksOfJson_roundtrip)
qed

lemma tasksOfJson_tasksToJson: "tasksOfJson (tasksToJson tasks) = Some tasks"
  by (simp add: tasksOfJson_def tasksToJson_def those_map_roundtrip [of taskOfJson taskToJson, OF taskOfJson_taskToJson]
      del: map_map)

lemma hasIdAndTitle_taskToJson: "hasIdAndTitle (taskToJson t) = Inr True"
  by (simp add: hasIdAndTitle_def inOperator_def taskToJson_def)

text \<open>
  Claim C9. For every collection, importing the text that the export writes
  succeeds and sets the collection to the value that was exported, and reading
  that value back gives the collection, equal in every field of every task and
  subtask.
\<close>

theorem export_import_roundtrip:
  "importTasks jsonParse (Some (exportTasks tasks)) current = (tasksToJson tasks, ToastImported)
   \<and> tasksOfJson (tasksToJson tasks) = Some tasks"
proof -
  have "every hasIdAndTitle (map taskToJson tasks) = Inr True"
    by (simp add: every_iff hasIdAndTitle_taskToJson)
  then have "tryImport jsonParse (exportTasks tasks) = Inr (tasksToJson tasks)"
    by (simp add: tryImport_Inr_iff exportTasks_def jsonParse_jsonStringify tasksToJson_def)
  then show ?thesis
    by (simp add: importTasks_def tasksOfJson_tasksToJson)
qed

theorem export_import_roundtrip_witness:
  "importTasks jsonParse (Some (exportTasks [sampleTask, sampleDone])) (JArray []) =
     (tasksToJson [sampleTask, sampleDone], ToastImported)
   \<and> tasksOfJson (tasksToJson [sampleTask, sampleDone]) = Some [sampleTask, sampleDone]"
  by (rule export_import_roundtrip)

end
